theory Spec2Isabelle
  imports Main
begin

section \<open>Strings of the Go standard library used by the collector\<close>

text \<open>
  Go strings are byte sequences; they are modelled as \<open>string\<close> (a list of 8-bit
  characters). \<open>HasPrefix\<close> is \<open>strings.HasPrefix\<close>: the string is at least as long
  as the prefix and its first bytes are the prefix.
\<close>

definition HasPrefix :: "string \<Rightarrow> string \<Rightarrow> bool" where
  "HasPrefix s pre = (length pre \<le> length s \<and> take (length pre) s = pre)"

text \<open>
  \<open>Index\<close> is \<open>strings.Index\<close>: the byte offset of the first occurrence of the
  substring, or \<open>-1\<close> when there is none. \<open>IndexFrom\<close> scans from offset \<open>i\<close>.
\<close>

fun IndexFrom :: "string \<Rightarrow> string \<Rightarrow> nat \<Rightarrow> int" where
  "IndexFrom [] sub i = (if sub = [] then int i else -1)"
| "IndexFrom (c # cs) sub i =
     (if HasPrefix (c # cs) sub then int i else IndexFrom cs sub (Suc i))"

definition Index :: "string \<Rightarrow> string \<Rightarrow> int" where
  "Index s sub = IndexFrom s sub 0"

text \<open>The decimal rendering of \<open>%d\<close> in \<open>fmt.Sprintf\<close>.\<close>

definition digit :: "nat \<Rightarrow> char" where
  "digit d = ''0123456789'' ! d"

function decimal :: "nat \<Rightarrow> string" where
  "decimal n = (if n < 10 then [digit n] else decimal (n div 10) @ [digit (n mod 10)])"
  by pat_completeness auto
termination
  by (relation "measure id") auto

declare decimal.simps [simp del]

definition Sprintf_d :: "int \<Rightarrow> string" where
  "Sprintf_d i = (if i < 0 then CHR ''-'' # decimal (nat (- i)) else decimal (nat i))"

section \<open>The entity model\<close>

record PackageNode =
  ImportPath :: string
  pn_Name :: string
  Dir :: string

record StructNode =
  sn_Name :: string
  sn_Package :: string
  sn_File :: string
  sn_Line :: int
  sn_Exported :: bool
  FieldCount :: int

record InterfaceNode =
  in_Name :: string
  in_Package :: string
  in_File :: string
  in_Line :: int
  in_Exported :: bool
  Methods :: int

record FuncNode =
  Name :: string
  FullName :: string
  Package :: string
  File :: string
  Line :: int
  Exported :: bool
  Receiver :: string
  IsMethod :: bool

record CallEdge =
  CallerFullName :: string
  CalleeFullName :: string
  IsDynamic :: bool
  Site :: string

record ImplementsEdge =
  Struct :: string
  Interface :: string

section \<open>The collector\<close>

record Collector =
  RootModule :: string
  Packages :: "string \<rightharpoonup> PackageNode"
  Structs :: "string \<rightharpoonup> StructNode"
  Interfaces :: "string \<rightharpoonup> InterfaceNode"
  Funcs :: "string \<rightharpoonup> FuncNode"
  Calls :: "CallEdge list"
  Implements :: "ImplementsEdge list"

definition NewCollector :: "string \<Rightarrow> Collector" where
  "NewCollector rootModule =
     \<lparr>RootModule = rootModule, Packages = Map.empty, Structs = Map.empty,
      Interfaces = Map.empty, Funcs = Map.empty, Calls = [], Implements = []\<rparr>"

definition isProjectPackage :: "Collector \<Rightarrow> string \<Rightarrow> bool" where
  "isProjectPackage c pkgPath = HasPrefix pkgPath (RootModule c)"

definition relPath :: "Collector \<Rightarrow> string \<Rightarrow> string" where
  "relPath c fullPath =
     (let idx = Index fullPath (RootModule c) in
      if idx \<ge> 0 then
        (let rest = drop (nat idx + length (RootModule c)) fullPath in
         if length rest > 0 \<and> rest ! 0 = CHR ''/'' then drop 1 rest else rest)
      else fullPath)"

section \<open>The type-checked program handed to the collector\<close>

text \<open>
  A resolved source position (\<open>token.Position\<close>): the collector reads the file name and
  the line; the column only tells two positions of one line apart.
\<close>

record Position =
  Filename :: string
  PosLine :: int
  Column :: int

text \<open>
  The types of \<open>go/types\<close> as far as the collector inspects them: a named type with the
  package path and the name of its type name object, a pointer type with its element,
  and any other type (a basic type, a type literal, an alias type, ...): the type
  assertions of the collector tell only the first two apart.
\<close>

datatype gotype = Named string string | Pointer gotype | Unnamed

text \<open>An interface type with its full method set; \<open>NumMethods\<close> is its size.\<close>

datatype InterfaceType = InterfaceType "string list"

fun NumMethods :: "InterfaceType \<Rightarrow> int" where
  "NumMethods (InterfaceType ms) = int (length ms)"

text \<open>The underlying type of a type name: a struct with its number of fields, an
  interface, or anything else.\<close>

datatype Underlying = UStruct nat | UInterface InterfaceType | UOther

text \<open>A function object (\<open>types.Func\<close>): its name, position, exported flag and the type
  of the receiver of its signature, if it has one.\<close>

record FuncObj =
  fo_Name :: string
  fo_Pos :: Position
  fo_Exported :: bool
  fo_Recv :: "gotype option"

text \<open>A type name object (\<open>types.TypeName\<close>): position, exported flag, its type, the
  underlying type, and the methods of its type when that is a named type.\<close>

record TypeNameObj =
  tn_Pos :: Position
  tn_Exported :: bool
  tn_Type :: gotype
  tn_Underlying :: Underlying
  tn_Methods :: "FuncObj list"

datatype Object = TypeName TypeNameObj | Func FuncObj | OtherObject Position

text \<open>A loaded package: import path, name, and its scope as the list of names (in the
  order of \<open>scope.Names()\<close>) with the object each name looks up.\<close>

record GoPackage =
  PkgPath :: string
  PkgName :: string
  Scope :: "(string \<times> Object) list"

section \<open>Entity extraction\<close>

text \<open>The function node of the declaration scan (a \<open>types.Func\<close> found in the scope).\<close>

definition declFuncNode :: "Collector \<Rightarrow> string \<Rightarrow> string \<Rightarrow> FuncObj \<Rightarrow> FuncNode" where
  "declFuncNode c pkgPath name fo =
     (let fn = \<lparr>Name = name, FullName = pkgPath @ ''.'' @ name, Package = pkgPath,
                File = relPath c (Filename (fo_Pos fo)), Line = PosLine (fo_Pos fo),
                Exported = fo_Exported fo, Receiver = [], IsMethod = False\<rparr> in
      case fo_Recv fo of
        None \<Rightarrow> fn
      | Some recvType \<Rightarrow>
          (let recvType' = (case recvType of Pointer elem \<Rightarrow> elem | _ \<Rightarrow> recvType) in
           case recvType' of
             Named _ objName \<Rightarrow>
               fn\<lparr>Receiver := objName, IsMethod := True,
                  FullName := pkgPath @ ''.'' @ objName @ ''.'' @ name\<rparr>
           | _ \<Rightarrow> fn))"

text \<open>The function node of the method-set scan: method \<open>m\<close> of the named type found under
  the scope name \<open>name\<close>.\<close>

definition methodFuncNode :: "Collector \<Rightarrow> string \<Rightarrow> string \<Rightarrow> FuncObj \<Rightarrow> FuncNode" where
  "methodFuncNode c pkgPath name m =
     \<lparr>Name = fo_Name m, FullName = pkgPath @ ''.'' @ name @ ''.'' @ fo_Name m,
      Package = pkgPath, File = relPath c (Filename (fo_Pos m)), Line = PosLine (fo_Pos m),
      Exported = fo_Exported m, Receiver = name, IsMethod = True\<rparr>"

definition putFunc :: "FuncNode \<Rightarrow> Collector \<Rightarrow> Collector" where
  "putFunc fn c = c\<lparr>Funcs := (Funcs c)(FullName fn \<mapsto> fn)\<rparr>"

text \<open>The body of the first loop over the scope, for one name.\<close>

definition scanObject :: "string \<Rightarrow> string \<times> Object \<Rightarrow> Collector \<Rightarrow> Collector" where
  "scanObject pkgPath entry c =
     (case entry of (name, obj) \<Rightarrow>
       (case obj of
          TypeName tn \<Rightarrow>
            (case tn_Underlying tn of
               UStruct numFields \<Rightarrow>
                 c\<lparr>Structs := (Structs c)(pkgPath @ ''.'' @ name \<mapsto>
                      \<lparr>sn_Name = name, sn_Package = pkgPath,
                       sn_File = relPath c (Filename (tn_Pos tn)), sn_Line = PosLine (tn_Pos tn),
                       sn_Exported = tn_Exported tn, FieldCount = int numFields\<rparr>)\<rparr>
             | UInterface t \<Rightarrow>
                 c\<lparr>Interfaces := (Interfaces c)(pkgPath @ ''.'' @ name \<mapsto>
                      \<lparr>in_Name = name, in_Package = pkgPath,
                       in_File = relPath c (Filename (tn_Pos tn)), in_Line = PosLine (tn_Pos tn),
                       in_Exported = tn_Exported tn, Methods = NumMethods t\<rparr>)\<rparr>
             | UOther \<Rightarrow> c)
        | Func fo \<Rightarrow> putFunc (declFuncNode c pkgPath name fo) c
        | OtherObject _ \<Rightarrow> c))"

text \<open>The body of the second loop over the scope, for one name: the methods of a type
  name whose type is a named type.\<close>

definition scanMethods :: "string \<Rightarrow> string \<times> Object \<Rightarrow> Collector \<Rightarrow> Collector" where
  "scanMethods pkgPath entry c =
     (case entry of (name, obj) \<Rightarrow>
       (case obj of
          TypeName tn \<Rightarrow>
            (case tn_Type tn of
               Named _ _ \<Rightarrow>
                 fold (\<lambda>m c'. putFunc (methodFuncNode c' pkgPath name m) c') (tn_Methods tn) c
             | _ \<Rightarrow> c)
        | _ \<Rightarrow> c))"

text \<open>The callback of \<open>packages.Visit\<close> in \<open>CollectTypes\<close>.\<close>

definition visitTypes :: "GoPackage \<Rightarrow> Collector \<Rightarrow> Collector" where
  "visitTypes pkg c =
     (if \<not> isProjectPackage c (PkgPath pkg) then c
      else
        (let c1 = c\<lparr>Packages := (Packages c)(PkgPath pkg \<mapsto>
                     \<lparr>ImportPath = PkgPath pkg, pn_Name = PkgName pkg,
                      Dir = relPath c (PkgPath pkg)\<rparr>)\<rparr>;
             c2 = fold (scanObject (PkgPath pkg)) (Scope pkg) c1
         in fold (scanMethods (PkgPath pkg)) (Scope pkg) c2))"

text \<open>
  \<open>CollectTypes\<close>. The argument \<open>pkgs\<close> is the sequence of packages in the order in which
  \<open>packages.Visit\<close> hands them to the callback (every package of the import graph once).
\<close>

definition CollectTypes :: "Collector \<Rightarrow> GoPackage list \<Rightarrow> Collector" where
  "CollectTypes c pkgs = fold visitTypes pkgs c"

section \<open>Call-graph extraction\<close>

text \<open>
  An SSA function as the collector reads it: the path of its package (\<open>None\<close> when
  \<open>fn.Pkg\<close> is nil, as for synthetic wrappers), its name, the receiver type of its
  signature, the exported flag of its object (\<open>None\<close> when it has no object), and the
  text of \<open>fn.String()\<close>.
\<close>

record Function =
  fn_Pkg :: "string option"
  fn_Name :: string
  fn_Recv :: "gotype option"
  fn_Object :: "bool option"
  fn_String :: string

text \<open>A call instruction: its position and whether it is an interface method
  invocation (\<open>Common().IsInvoke()\<close>).\<close>

record CallSite =
  site_Pos :: Position
  IsInvoke :: bool

text \<open>An edge of the call graph; the site is \<open>None\<close> when \<open>edge.Site\<close> is nil.\<close>

record Edge =
  Caller :: Function
  Callee :: Function
  EdgeSite :: "CallSite option"

definition buildSSAFuncName :: "Function \<Rightarrow> string" where
  "buildSSAFuncName fn =
     (case fn_Pkg fn of
        None \<Rightarrow> fn_String fn
      | Some pkgPath \<Rightarrow>
          (case fn_Recv fn of
             Some recvType \<Rightarrow>
               (let recvType' = (case recvType of Pointer elem \<Rightarrow> elem | _ \<Rightarrow> recvType) in
                case recvType' of
                  Named _ objName \<Rightarrow> pkgPath @ ''.'' @ objName @ ''.'' @ fn_Name fn
                | _ \<Rightarrow> pkgPath @ ''.'' @ fn_Name fn)
           | None \<Rightarrow> pkgPath @ ''.'' @ fn_Name fn))"

text \<open>The minimal node registered for a function first met in the call graph.\<close>

definition minimalFuncNode :: "Function \<Rightarrow> string \<Rightarrow> string \<Rightarrow> FuncNode" where
  "minimalFuncNode fn fullName pkgPath =
     \<lparr>Name = fn_Name fn, FullName = fullName, Package = pkgPath, File = [], Line = 0,
      Exported = (case fn_Object fn of None \<Rightarrow> False | Some e \<Rightarrow> e),
      Receiver = [], IsMethod = False\<rparr>"

definition siteString :: "Collector \<Rightarrow> CallSite option \<Rightarrow> string" where
  "siteString c s =
     (case s of
        None \<Rightarrow> []
      | Some i \<Rightarrow> relPath c (Filename (site_Pos i)) @ '':'' @ Sprintf_d (PosLine (site_Pos i)))"

definition mkCallEdge :: "Collector \<Rightarrow> Edge \<Rightarrow> CallEdge" where
  "mkCallEdge c edge =
     \<lparr>CallerFullName = buildSSAFuncName (Caller edge),
      CalleeFullName = buildSSAFuncName (Callee edge),
      IsDynamic = (case EdgeSite edge of None \<Rightarrow> False | Some i \<Rightarrow> IsInvoke i),
      Site = siteString c (EdgeSite edge)\<rparr>"

text \<open>The callback of \<open>callgraph.GraphVisitEdges\<close> in \<open>CollectCallGraph\<close>.\<close>

definition visitEdge :: "Edge \<Rightarrow> Collector \<Rightarrow> Collector" where
  "visitEdge edge c =
     (let caller = Caller edge; callee = Callee edge in
      case fn_Pkg caller of
        None \<Rightarrow> c
      | Some callerPkg \<Rightarrow>
          (case fn_Pkg callee of
             None \<Rightarrow> c
           | Some calleePkg \<Rightarrow>
               if \<not> isProjectPackage c callerPkg \<and> \<not> isProjectPackage c calleePkg then c
               else
                 (let callerName = buildSSAFuncName caller;
                      calleeName = buildSSAFuncName callee;
                      c1 = c\<lparr>Calls := Calls c @ [mkCallEdge c edge]\<rparr>;
                      c2 = (if Funcs c1 callerName = None \<and> isProjectPackage c1 callerPkg
                            then c1\<lparr>Funcs := (Funcs c1)(callerName \<mapsto>
                                      minimalFuncNode caller callerName callerPkg)\<rparr>
                            else c1)
                  in if Funcs c2 calleeName = None \<and> isProjectPackage c2 calleePkg
                     then c2\<lparr>Funcs := (Funcs c2)(calleeName \<mapsto>
                               minimalFuncNode callee calleeName calleePkg)\<rparr>
                     else c2)))"

text \<open>
  \<open>CollectCallGraph\<close>. Building the SSA form and running the VTA analysis are library
  calls; the argument \<open>cg\<close> is the sequence of edges of the resulting call graph, in the
  order in which \<open>GraphVisitEdges\<close> hands them to the callback (every edge once).
\<close>

definition CollectCallGraph :: "Collector \<Rightarrow> Edge list \<Rightarrow> Collector" where
  "CollectCallGraph c cg = fold visitEdge cg c"

section \<open>Interface implementations\<close>

text \<open>The entries of the two local slices \<open>ifaces\<close> and \<open>concretes\<close>.\<close>

record IfaceEntry =
  ie_key :: string
  ie_typ :: InterfaceType
  ie_name :: string
  ie_pkg :: string

record ConcreteEntry =
  ce_key :: string
  ce_typ :: gotype
  ce_name :: string
  ce_pkg :: string

text \<open>The body of the loop over the scope in the gathering callback, for one name; the
  state is the pair of the two slices.\<close>

definition gatherObject ::
  "string \<Rightarrow> string \<times> Object \<Rightarrow> IfaceEntry list \<times> ConcreteEntry list
     \<Rightarrow> IfaceEntry list \<times> ConcreteEntry list" where
  "gatherObject pkgPath entry acc =
     (case entry of (name, obj) \<Rightarrow>
       (case obj of
          TypeName tn \<Rightarrow>
            (case tn_Underlying tn of
               UInterface t \<Rightarrow>
                 (if NumMethods t > 0
                  then (fst acc @ [\<lparr>ie_key = pkgPath @ ''.'' @ name, ie_typ = t,
                                    ie_name = name, ie_pkg = pkgPath\<rparr>], snd acc)
                  else acc)
             | UStruct _ \<Rightarrow>
                 (fst acc, snd acc @ [\<lparr>ce_key = pkgPath @ ''.'' @ name, ce_typ = tn_Type tn,
                                       ce_name = name, ce_pkg = pkgPath\<rparr>])
             | UOther \<Rightarrow> acc)
        | _ \<Rightarrow> acc))"

definition gatherPackage ::
  "Collector \<Rightarrow> GoPackage \<Rightarrow> IfaceEntry list \<times> ConcreteEntry list
     \<Rightarrow> IfaceEntry list \<times> ConcreteEntry list" where
  "gatherPackage c pkg acc =
     (if \<not> isProjectPackage c (PkgPath pkg) then acc
      else fold (gatherObject (PkgPath pkg)) (Scope pkg) acc)"

text \<open>
  The body of the inner loop of the implements check. The state is the \<open>seen\<close> map (a
  missing key reads as false) and the edges appended so far. \<open>impl\<close> stands for
  \<open>types.Implements\<close>, a function of the type checker.
\<close>

definition checkPair ::
  "(gotype \<Rightarrow> InterfaceType \<Rightarrow> bool) \<Rightarrow> ConcreteEntry \<Rightarrow> IfaceEntry
     \<Rightarrow> (string \<Rightarrow> bool) \<times> ImplementsEdge list \<Rightarrow> (string \<Rightarrow> bool) \<times> ImplementsEdge list" where
  "checkPair impl concrete iface st =
     (let edgeKey = ce_key concrete @ ''->'' @ ie_key iface in
      if fst st edgeKey then st
      else if impl (ce_typ concrete) (ie_typ iface)
      then ((fst st)(edgeKey := True),
            snd st @ [\<lparr>Struct = ce_key concrete, Interface = ie_key iface\<rparr>])
      else if impl (Pointer (ce_typ concrete)) (ie_typ iface)
      then ((fst st)(edgeKey := True),
            snd st @ [\<lparr>Struct = ce_key concrete, Interface = ie_key iface\<rparr>])
      else st)"

definition checkAll ::
  "(gotype \<Rightarrow> InterfaceType \<Rightarrow> bool) \<Rightarrow> ConcreteEntry list \<Rightarrow> IfaceEntry list
     \<Rightarrow> (string \<Rightarrow> bool) \<times> ImplementsEdge list \<Rightarrow> (string \<Rightarrow> bool) \<times> ImplementsEdge list" where
  "checkAll impl concretes ifaces st =
     fold (\<lambda>concrete st'. fold (checkPair impl concrete) ifaces st') concretes st"

definition CollectImplementsFromPackages ::
  "(gotype \<Rightarrow> InterfaceType \<Rightarrow> bool) \<Rightarrow> Collector \<Rightarrow> GoPackage list \<Rightarrow> Collector" where
  "CollectImplementsFromPackages impl c pkgs =
     (let gathered = fold (gatherPackage c) pkgs ([], []);
          ifaces = fst gathered;
          concretes = snd gathered
      in c\<lparr>Implements := snd (checkAll impl concretes ifaces (\<lambda>_. False, Implements c))\<rparr>)"

section \<open>Notions used to state the properties of the call-graph pass\<close>

text \<open>
  An edge passes the two guards of the callback: both functions have a package, and at
  least one of the two packages is in-project.
\<close>

definition emits :: "Collector \<Rightarrow> Edge \<Rightarrow> bool" where
  "emits c edge =
     (case fn_Pkg (Caller edge) of
        None \<Rightarrow> False
      | Some callerPkg \<Rightarrow>
          (case fn_Pkg (Callee edge) of
             None \<Rightarrow> False
           | Some calleePkg \<Rightarrow> isProjectPackage c callerPkg \<or> isProjectPackage c calleePkg))"

text \<open>The registration block of the callback ("Register functions discovered during call
  graph analysis"), for one endpoint; the callback runs it for the caller, then the callee.\<close>

definition register :: "Function \<Rightarrow> string \<Rightarrow> Collector \<Rightarrow> Collector" where
  "register fn pkgPath c =
     (if Funcs c (buildSSAFuncName fn) = None \<and> isProjectPackage c pkgPath
      then c\<lparr>Funcs := (Funcs c)(buildSSAFuncName fn \<mapsto>
                minimalFuncNode fn (buildSSAFuncName fn) pkgPath)\<rparr>
      else c)"

text \<open>The keys of the two edge collections, as the data model gives them.\<close>

definition callKey :: "CallEdge \<Rightarrow> string \<times> string \<times> string" where
  "callKey x = (CallerFullName x, CalleeFullName x, Site x)"

definition implKey :: "ImplementsEdge \<Rightarrow> string \<times> string" where
  "implKey x = (Struct x, Interface x)"

text \<open>The three collection stages in the order in which \<open>main\<close> runs them.\<close>

definition runPipeline ::
  "(gotype \<Rightarrow> InterfaceType \<Rightarrow> bool) \<Rightarrow> string \<Rightarrow> GoPackage list \<Rightarrow> Edge list \<Rightarrow> Collector" where
  "runPipeline impl modulePath pkgs cg =
     CollectImplementsFromPackages impl
       (CollectCallGraph (CollectTypes (NewCollector modulePath) pkgs) cg) pkgs"

section \<open>Notions used to state the properties of the implements check\<close>

text \<open>The two slices after the gathering visit.\<close>

definition gathered :: "Collector \<Rightarrow> GoPackage list \<Rightarrow> IfaceEntry list \<times> ConcreteEntry list" where
  "gathered c pkgs = fold (gatherPackage c) pkgs ([], [])"

text \<open>The key of the \<open>seen\<close> map for a pair, and the disjunction of the two checks.\<close>

definition edgeKeyOf :: "ConcreteEntry \<times> IfaceEntry \<Rightarrow> string" where
  "edgeKeyOf p = ce_key (fst p) @ ''->'' @ ie_key (snd p)"

definition satisfies :: "(gotype \<Rightarrow> InterfaceType \<Rightarrow> bool) \<Rightarrow> ConcreteEntry \<times> IfaceEntry \<Rightarrow> bool" where
  "satisfies impl p =
     (impl (ce_typ (fst p)) (ie_typ (snd p)) \<or> impl (Pointer (ce_typ (fst p))) (ie_typ (snd p)))"

definition edgeOf :: "ConcreteEntry \<times> IfaceEntry \<Rightarrow> ImplementsEdge" where
  "edgeOf p = \<lparr>Struct = ce_key (fst p), Interface = ie_key (snd p)\<rparr>"

text \<open>Every gathered interface is declared in the scope of a visited in-project package
  and has at least one method.\<close>

definition ifaceOrigin :: "Collector \<Rightarrow> GoPackage list \<Rightarrow> IfaceEntry \<Rightarrow> bool" where
  "ifaceOrigin c pkgs i =
     (\<exists>pkg name tn t. pkg \<in> set pkgs \<and> isProjectPackage c (PkgPath pkg) \<and>
        (name, TypeName tn) \<in> set (Scope pkg) \<and> tn_Underlying tn = UInterface t \<and>
        NumMethods t > 0 \<and>
        i = \<lparr>ie_key = PkgPath pkg @ ''.'' @ name, ie_typ = t, ie_name = name,
             ie_pkg = PkgPath pkg\<rparr>)"

text \<open>Every gathered struct is declared in the scope of a visited in-project package.\<close>

definition concreteOrigin :: "Collector \<Rightarrow> GoPackage list \<Rightarrow> ConcreteEntry \<Rightarrow> bool" where
  "concreteOrigin c pkgs cn =
     (\<exists>pkg name tn nf. pkg \<in> set pkgs \<and> isProjectPackage c (PkgPath pkg) \<and>
        (name, TypeName tn) \<in> set (Scope pkg) \<and> tn_Underlying tn = UStruct nf \<and>
        cn = \<lparr>ce_key = PkgPath pkg @ ''.'' @ name, ce_typ = tn_Type tn, ce_name = name,
              ce_pkg = PkgPath pkg\<rparr>)"

text \<open>
  The naming rules of Go programs that make the keys unambiguous: the visited packages
  have distinct import paths, the names of a scope are distinct, a name contains neither
  a dot nor \<open>>\<close>, and an import path does not contain \<open>>\<close>.
\<close>

definition goNames :: "GoPackage list \<Rightarrow> bool" where
  "goNames pkgs =
     (distinct (map PkgPath pkgs) \<and>
      (\<forall>pkg\<in>set pkgs. distinct (map fst (Scope pkg)) \<and> CHR ''>'' \<notin> set (PkgPath pkg) \<and>
         (\<forall>entry\<in>set (Scope pkg). CHR ''.'' \<notin> set (fst entry) \<and> CHR ''>'' \<notin> set (fst entry))))"

text \<open>Every function node is stored under its own full name, and every package node
  under its own import path.\<close>

definition keyed :: "Collector \<Rightarrow> bool" where
  "keyed c = ((\<forall>k n. Funcs c k = Some n \<longrightarrow> FullName n = k) \<and>
              (\<forall>k n. Packages c k = Some n \<longrightarrow> ImportPath n = k))"

section \<open>The command-line entry point\<close>

text \<open>The parsed command-line flags.\<close>

record Flags =
  neo4jURI :: string
  neo4jUser :: string
  neo4jPass :: string
  clean :: bool
  dir :: string

text \<open>The operations of the loader that \<open>main\<close> calls after connecting.\<close>

datatype SinkOp =
  CleanGraph | CreateIndexes | LoadPackages | LoadStructs | LoadInterfaces | LoadFuncs
  | LoadCalls | LoadImplements

text \<open>
  What the environment answers to the calls of \<open>main\<close>: \<open>filepath.Abs\<close>, the reading of
  \<open>go.mod\<close> by \<open>detectModulePath\<close> and \<open>packages.Load\<close> (\<open>None\<close> is an error), the
  call graph of the loaded packages, the implements test of the type checker, and
  whether connecting to the store and each operation on it succeed.
\<close>

record World =
  w_Abs :: "string \<Rightarrow> string option"
  w_detectModulePath :: "string \<Rightarrow> string option"
  w_Load :: "string \<Rightarrow> GoPackage list option"
  w_CallGraph :: "GoPackage list \<Rightarrow> Edge list"
  w_Implements :: "gotype \<Rightarrow> InterfaceType \<Rightarrow> bool"
  w_Connect :: bool
  w_Sink :: "SinkOp \<Rightarrow> bool"

text \<open>The observable steps of a run, in order; progress log lines are left out.\<close>

datatype Event =
  EvStderr string | EvUsage | EvAbs | EvDetectModulePath | EvLoad
  | EvCollectTypes | EvCollectCallGraph | EvCollectImplements
  | EvConnect | EvSink SinkOp | EvClose

text \<open>
  The loader operations in sequence: a failing operation ends the process through
  \<open>log.Fatal\<close> (exit status 1, deferred calls do not run); after the last one \<open>main\<close>
  returns, the deferred \<open>Close\<close> runs, and the exit status is 0.
\<close>

fun sinkSteps :: "World \<Rightarrow> SinkOp list \<Rightarrow> Event list \<times> int" where
  "sinkSteps w [] = ([EvClose], 0)"
| "sinkSteps w (x # xs) =
     (if w_Sink w x
      then (EvSink x # fst (sinkSteps w xs), snd (sinkSteps w xs))
      else ([EvSink x], 1))"

text \<open>\<open>main\<close>: the trace of a run and its exit status.\<close>

definition main :: "Flags \<Rightarrow> World \<Rightarrow> Event list \<times> int" where
  "main fl w =
     (if neo4jPass fl = [] then ([EvStderr ''Error: --neo4j-pass is required'', EvUsage], 1)
      else
        (case w_Abs w (dir fl) of
           None \<Rightarrow> ([EvAbs], 1)
         | Some absDir \<Rightarrow>
             (case w_detectModulePath w absDir of
                None \<Rightarrow> ([EvAbs, EvDetectModulePath], 1)
              | Some modulePath \<Rightarrow>
                  (case w_Load w absDir of
                     None \<Rightarrow> ([EvAbs, EvDetectModulePath, EvLoad], 1)
                   | Some pkgs \<Rightarrow>
                       (let pre = [EvAbs, EvDetectModulePath, EvLoad, EvCollectTypes,
                                   EvCollectCallGraph, EvCollectImplements, EvConnect]
                        in if \<not> w_Connect w then (pre, 1)
                           else
                             (let r = sinkSteps w
                                    ((if clean fl then [CleanGraph] else []) @
                                     [CreateIndexes, LoadPackages, LoadStructs, LoadInterfaces,
                                      LoadFuncs, LoadCalls, LoadImplements])
                              in (pre @ fst r, snd r)))))))"

section \<open>Example programs\<close>

definition ex_main :: Function where
  "ex_main = \<lparr>fn_Pkg = Some ''app'', fn_Name = ''main'', fn_Recv = None,
              fn_Object = Some False, fn_String = ''app.main''\<rparr>"

definition ex_helper :: Function where
  "ex_helper = \<lparr>fn_Pkg = Some ''app'', fn_Name = ''helper'', fn_Recv = None,
                fn_Object = Some False, fn_String = ''app.helper''\<rparr>"

definition ex_Println :: Function where
  "ex_Println = \<lparr>fn_Pkg = Some ''fmt'', fn_Name = ''Println'', fn_Recv = None,
                 fn_Object = Some True, fn_String = ''fmt.Println''\<rparr>"

text \<open>The declared methods \<open>func (a *A) Handle()\<close> and \<open>func (b *B) Handle()\<close>.\<close>

definition ex_A_Handle :: Function where
  "ex_A_Handle = \<lparr>fn_Pkg = Some ''app'', fn_Name = ''Handle'',
                  fn_Recv = Some (Pointer (Named ''app'' ''A'')),
                  fn_Object = Some True, fn_String = ''(*app.A).Handle''\<rparr>"

definition ex_B_Handle :: Function where
  "ex_B_Handle = \<lparr>fn_Pkg = Some ''app'', fn_Name = ''Handle'',
                  fn_Recv = Some (Pointer (Named ''app'' ''B'')),
                  fn_Object = Some True, fn_String = ''(*app.B).Handle''\<rparr>"

text \<open>The synthetic wrapper \<open>(*V).Handle\<close> that SSA builds for a method declared with a
  value receiver, \<open>func (v V) Handle()\<close>, when it is called through a pointer held in an
  interface: wrappers belong to no package.\<close>

definition ex_wrapper :: Function where
  "ex_wrapper = \<lparr>fn_Pkg = None, fn_Name = ''Handle'',
                 fn_Recv = Some (Pointer (Named ''app'' ''V'')),
                 fn_Object = Some True, fn_String = ''(*app.V).Handle''\<rparr>"

text \<open>The declared method \<open>func (v V) Handle()\<close> and the call of it in the body of the
  wrapper, an instruction without a source position.\<close>

definition ex_V_Handle :: Function where
  "ex_V_Handle = \<lparr>fn_Pkg = Some ''app'', fn_Name = ''Handle'',
                  fn_Recv = Some (Named ''app'' ''V''),
                  fn_Object = Some True, fn_String = ''(app.V).Handle''\<rparr>"

definition ex_wrapper_call :: Edge where
  "ex_wrapper_call = \<lparr>Caller = ex_wrapper, Callee = ex_V_Handle,
     EdgeSite = Some \<lparr>site_Pos = \<lparr>Filename = [], PosLine = 0, Column = 0\<rparr>,
                      IsInvoke = False\<rparr>\<rparr>"

definition ex_pos :: "int \<Rightarrow> int \<Rightarrow> Position" where
  "ex_pos l col = \<lparr>Filename = ''app/main.go'', PosLine = l, Column = col\<rparr>"

definition ex_static :: "Function \<Rightarrow> Function \<Rightarrow> int \<Rightarrow> int \<Rightarrow> Edge" where
  "ex_static f g l col =
     \<lparr>Caller = f, Callee = g, EdgeSite = Some \<lparr>site_Pos = ex_pos l col, IsInvoke = False\<rparr>\<rparr>"

definition ex_invoke :: "Function \<Rightarrow> Function \<Rightarrow> int \<Rightarrow> int \<Rightarrow> Edge" where
  "ex_invoke f g l col =
     \<lparr>Caller = f, Callee = g, EdgeSite = Some \<lparr>site_Pos = ex_pos l col, IsInvoke = True\<rparr>\<rparr>"

text \<open>An edge of a project of module \<open>example.com/app\<close> checked out in \<open>/home/u/app\<close>:
  the position of the call has the path of the file in the file system.\<close>

definition ex_abs :: Edge where
  "ex_abs = \<lparr>Caller = ex_main\<lparr>fn_Pkg := Some ''example.com/app''\<rparr>,
             Callee = ex_helper\<lparr>fn_Pkg := Some ''example.com/app''\<rparr>,
             EdgeSite = Some \<lparr>site_Pos = \<lparr>Filename = ''/home/u/app/main.go'', PosLine = 7,
                                          Column = 2\<rparr>, IsInvoke = False\<rparr>\<rparr>"

definition ex_mainNode :: FuncNode where
  "ex_mainNode = \<lparr>Name = ''main'', FullName = ''app.main'', Package = ''app'',
                  File = ''main.go'', Line = 3, Exported = False, Receiver = [],
                  IsMethod = False\<rparr>"

definition ex_impl :: "gotype \<Rightarrow> InterfaceType \<Rightarrow> bool" where
  "ex_impl t i = (t = Pointer (Named ''app'' ''Server'') \<and> i = InterfaceType [''Handle''])"

text \<open>
  The package of the end-to-end scenario: an empty interface, the interface \<open>Handler\<close>
  with the method \<open>Handle\<close>, the struct \<open>Server\<close> with the pointer-receiver method
  \<open>Handle\<close>, and the function \<open>main\<close>.
\<close>

definition ex_Handle_obj :: FuncObj where
  "ex_Handle_obj = \<lparr>fo_Name = ''Handle'',
     fo_Pos = \<lparr>Filename = ''app/server.go'', PosLine = 12, Column = 1\<rparr>,
     fo_Exported = True, fo_Recv = Some (Pointer (Named ''app'' ''Server''))\<rparr>"

definition ex_main_obj :: FuncObj where
  "ex_main_obj = \<lparr>fo_Name = ''main'',
     fo_Pos = \<lparr>Filename = ''app/main.go'', PosLine = 3, Column = 6\<rparr>,
     fo_Exported = False, fo_Recv = None\<rparr>"

definition ex_Empty_tn :: TypeNameObj where
  "ex_Empty_tn = \<lparr>tn_Pos = \<lparr>Filename = ''app/server.go'', PosLine = 3, Column = 6\<rparr>,
     tn_Exported = True, tn_Type = Named ''app'' ''Empty'',
     tn_Underlying = UInterface (InterfaceType []), tn_Methods = []\<rparr>"

definition ex_Handler_tn :: TypeNameObj where
  "ex_Handler_tn = \<lparr>tn_Pos = \<lparr>Filename = ''app/server.go'', PosLine = 5, Column = 6\<rparr>,
     tn_Exported = True, tn_Type = Named ''app'' ''Handler'',
     tn_Underlying = UInterface (InterfaceType [''Handle'']), tn_Methods = []\<rparr>"

definition ex_Server_tn :: TypeNameObj where
  "ex_Server_tn = \<lparr>tn_Pos = \<lparr>Filename = ''app/server.go'', PosLine = 9, Column = 6\<rparr>,
     tn_Exported = True, tn_Type = Named ''app'' ''Server'',
     tn_Underlying = UStruct 0, tn_Methods = [ex_Handle_obj]\<rparr>"

definition ex_pkg :: GoPackage where
  "ex_pkg = \<lparr>PkgPath = ''app'', PkgName = ''app'',
     Scope = [(''Empty'', TypeName ex_Empty_tn), (''Handler'', TypeName ex_Handler_tn),
              (''Server'', TypeName ex_Server_tn), (''main'', Func ex_main_obj)]\<rparr>"

definition ex_Server_Handle :: Function where
  "ex_Server_Handle = \<lparr>fn_Pkg = Some ''app'', fn_Name = ''Handle'',
     fn_Recv = Some (Pointer (Named ''app'' ''Server'')),
     fn_Object = Some True, fn_String = ''(*app.Server).Handle''\<rparr>"

text \<open>
  A package with a method declared on an alias receiver:
  \<open>type S struct{}\<close>, \<open>type A = S\<close>, \<open>func (a A) M()\<close>, and \<open>main\<close> calling \<open>M\<close>. The
  type of the type name \<open>A\<close> and the receiver type of \<open>M\<close> is the alias type, neither a
  named type nor a pointer; \<open>M\<close> is a method of the named type \<open>S\<close>.
\<close>

definition ex_alias_M_obj :: FuncObj where
  "ex_alias_M_obj = \<lparr>fo_Name = ''M'',
     fo_Pos = \<lparr>Filename = ''app/s.go'', PosLine = 7, Column = 1\<rparr>,
     fo_Exported = True, fo_Recv = Some Unnamed\<rparr>"

definition ex_S_tn :: TypeNameObj where
  "ex_S_tn = \<lparr>tn_Pos = \<lparr>Filename = ''app/s.go'', PosLine = 3, Column = 6\<rparr>,
     tn_Exported = True, tn_Type = Named ''app'' ''S'',
     tn_Underlying = UStruct 0, tn_Methods = [ex_alias_M_obj]\<rparr>"

definition ex_A_tn :: TypeNameObj where
  "ex_A_tn = \<lparr>tn_Pos = \<lparr>Filename = ''app/s.go'', PosLine = 5, Column = 6\<rparr>,
     tn_Exported = True, tn_Type = Unnamed,
     tn_Underlying = UStruct 0, tn_Methods = []\<rparr>"

definition ex_alias_pkg :: GoPackage where
  "ex_alias_pkg = \<lparr>PkgPath = ''app'', PkgName = ''app'',
     Scope = [(''A'', TypeName ex_A_tn), (''S'', TypeName ex_S_tn),
              (''main'', Func ex_main_obj)]\<rparr>"

definition ex_alias_M :: Function where
  "ex_alias_M = \<lparr>fn_Pkg = Some ''app'', fn_Name = ''M'', fn_Recv = Some Unnamed,
     fn_Object = Some True, fn_String = ''(app.A).M''\<rparr>"

text \<open>A run without a password, in a world where every call would succeed.\<close>

definition ex_flags :: Flags where
  "ex_flags = \<lparr>neo4jURI = ''bolt://localhost:7687'', neo4jUser = ''neo4j'', neo4jPass = [],
               clean = False, dir = ''.''\<rparr>"

definition ex_world :: World where
  "ex_world = \<lparr>w_Abs = (\<lambda>d. Some ''/home/u/app''), w_detectModulePath = (\<lambda>d. Some ''app''),
               w_Load = (\<lambda>d. Some [ex_pkg]),
               w_CallGraph = (\<lambda>ps. [ex_invoke ex_main ex_Server_Handle 7 2]),
               w_Implements = ex_impl, w_Connect = True, w_Sink = (\<lambda>x. True)\<rparr>"

text \<open>
  The reading of the specification's "exact path-prefix match": the package path is the
  module path itself or continues it after a path separator.
\<close>

definition spec_pathPrefixMatch :: "string \<Rightarrow> string \<Rightarrow> bool" where
  "spec_pathPrefixMatch m p = (p = m \<or> HasPrefix p (m @ ''/''))"

section \<open>The in-project test\<close>

lemma HasPrefix_append: "HasPrefix (pre @ rest) pre"
  by (simp add: HasPrefix_def)

lemma HasPrefix_iff: "HasPrefix s pre \<longleftrightarrow> (\<exists>rest. s = pre @ rest)"
proof
  assume "HasPrefix s pre"
  then have "s = pre @ drop (length pre) s"
    by (metis HasPrefix_def append_take_drop_id)
  then show "\<exists>rest. s = pre @ rest" ..
next
  assume "\<exists>rest. s = pre @ rest"
  then show "HasPrefix s pre" by (auto simp: HasPrefix_append)
qed

text \<open>The code accepts every path that the path-prefix match of the specification
  accepts; the converse fails.\<close>

lemma spec_pathPrefixMatch_isProjectPackage:
  "spec_pathPrefixMatch (RootModule c) p \<Longrightarrow> isProjectPackage c p"
  by (auto simp: spec_pathPrefixMatch_def isProjectPackage_def HasPrefix_iff)

text \<open>
  C1. The claim: a package is in-project exactly when its path is the module path or
  extends it at a path-component boundary. The code tests a plain string prefix, so the
  package \<open>example.com/foobar\<close> is classified as belonging to the module
  \<open>example.com/foo\<close>, although it is not under it.
\<close>

theorem isProjectPackage_sibling_prefix:
  "isProjectPackage (NewCollector ''example.com/foo'') ''example.com/foobar''
   \<and> \<not> spec_pathPrefixMatch ''example.com/foo'' ''example.com/foobar''"
  by (simp add: isProjectPackage_def NewCollector_def HasPrefix_def spec_pathPrefixMatch_def)

section \<open>The call-graph pass\<close>

lemma isProjectPackage_cong: "RootModule c' = RootModule c \<Longrightarrow> isProjectPackage c' p = isProjectPackage c p"
  by (simp add: isProjectPackage_def)

lemma isProjectPackage_Calls_update [simp]:
  "isProjectPackage (c\<lparr>Calls := xs\<rparr>) p = isProjectPackage c p"
  by (simp add: isProjectPackage_def)

lemma relPath_cong:
  assumes "RootModule c' = RootModule c"
  shows "relPath c' p = relPath c p"
  unfolding relPath_def assms by (rule refl)

lemma mkCallEdge_cong:
  assumes "RootModule c' = RootModule c"
  shows "mkCallEdge c' e = mkCallEdge c e"
  by (simp add: mkCallEdge_def siteString_def relPath_cong [OF assms] split: option.splits)

lemma emits_cong:
  assumes "RootModule c' = RootModule c"
  shows "emits c' e = emits c e"
  by (simp add: emits_def isProjectPackage_cong [OF assms] split: option.splits)

lemma visitEdge_skip:
  assumes "\<not> emits c e"
  shows "visitEdge e c = c"
proof (cases "fn_Pkg (Caller e)")
  case None
  then show ?thesis by (simp only: visitEdge_def Let_def option.case)
next
  case a: (Some a)
  show ?thesis
  proof (cases "fn_Pkg (Callee e)")
    case None
    with a show ?thesis by (simp only: visitEdge_def Let_def option.case)
  next
    case b: (Some b)
    from assms a b have n: "\<not> isProjectPackage c a \<and> \<not> isProjectPackage c b"
      by (simp add: emits_def)
    show ?thesis
      by (simp only: visitEdge_def Let_def a b option.case if_P [OF n])
  qed
qed

lemma visitEdge_emits:
  assumes e: "emits c e" and a: "fn_Pkg (Caller e) = Some a" and b: "fn_Pkg (Callee e) = Some b"
  shows "visitEdge e c =
     register (Callee e) b (register (Caller e) a (c\<lparr>Calls := Calls c @ [mkCallEdge c e]\<rparr>))"
proof -
  from e a b have n: "\<not> (\<not> isProjectPackage c a \<and> \<not> isProjectPackage c b)"
    by (simp add: emits_def)
  show ?thesis
    unfolding visitEdge_def Let_def register_def a b option.case if_not_P [OF n]
    by (rule refl)
qed

lemma emits_Pkg: "emits c e \<Longrightarrow> \<exists>a b. fn_Pkg (Caller e) = Some a \<and> fn_Pkg (Callee e) = Some b"
  by (simp add: emits_def split: option.splits)

lemma RootModule_register [simp]: "RootModule (register f p c) = RootModule c"
  by (simp add: register_def)

lemma Calls_register [simp]: "Calls (register f p c) = Calls c"
  by (simp add: register_def)

lemma Funcs_register_keep: "Funcs c k = Some n \<Longrightarrow> Funcs (register f p c) k = Some n"
  by (auto simp: register_def)

lemma RootModule_visitEdge [simp]: "RootModule (visitEdge e c) = RootModule c"
proof (cases "emits c e")
  case False
  then show ?thesis by (simp add: visitEdge_skip)
next
  case True
  from True obtain a b where ab: "fn_Pkg (Caller e) = Some a" "fn_Pkg (Callee e) = Some b"
    using emits_Pkg by blast
  show ?thesis by (simp add: visitEdge_emits [OF True ab])
qed

lemma RootModule_CollectCallGraph [simp]: "RootModule (CollectCallGraph c cg) = RootModule c"
  unfolding CollectCallGraph_def by (induction cg arbitrary: c) simp_all

lemma Calls_visitEdge:
  "Calls (visitEdge e c) = Calls c @ (if emits c e then [mkCallEdge c e] else [])"
proof (cases "emits c e")
  case False
  then show ?thesis by (simp add: visitEdge_skip)
next
  case True
  from True obtain a b where ab: "fn_Pkg (Caller e) = Some a" "fn_Pkg (Callee e) = Some b"
    using emits_Pkg by blast
  show ?thesis using True by (simp add: visitEdge_emits [OF True ab])
qed

lemma Calls_CollectCallGraph:
  "Calls (CollectCallGraph c cg) = Calls c @ map (mkCallEdge c) (filter (emits c) cg)"
  unfolding CollectCallGraph_def
proof (induction cg arbitrary: c)
  case Nil
  show ?case by simp
next
  case (Cons e cg)
  have r: "RootModule (visitEdge e c) = RootModule c" by simp
  have m: "mkCallEdge (visitEdge e c) = mkCallEdge c"
    using mkCallEdge_cong [OF r] by (rule ext)
  have f: "emits (visitEdge e c) = emits c"
    using emits_cong [OF r] by (rule ext)
  show ?case
    by (simp add: Cons.IH Calls_visitEdge m f)
qed

lemma Funcs_visitEdge_keep:
  "Funcs c k = Some n \<Longrightarrow> Funcs (visitEdge e c) k = Some n"
proof (cases "emits c e")
  case False
  assume "Funcs c k = Some n"
  with False show ?thesis by (simp add: visitEdge_skip)
next
  case True
  assume k: "Funcs c k = Some n"
  from True obtain a b where ab: "fn_Pkg (Caller e) = Some a" "fn_Pkg (Callee e) = Some b"
    using emits_Pkg by blast
  have "Funcs (c\<lparr>Calls := Calls c @ [mkCallEdge c e]\<rparr>) k = Some n" using k by simp
  then show ?thesis
    by (simp only: visitEdge_emits [OF True ab] Funcs_register_keep)
qed

lemma Funcs_CollectCallGraph_keep:
  "Funcs c k = Some n \<Longrightarrow> Funcs (CollectCallGraph c cg) k = Some n"
  unfolding CollectCallGraph_def
proof (induction cg arbitrary: c)
  case Nil
  then show ?case by simp
next
  case (Cons e cg)
  from Cons.prems have "Funcs (visitEdge e c) k = Some n" by (rule Funcs_visitEdge_keep)
  then have "Funcs (fold visitEdge cg (visitEdge e c)) k = Some n" by (rule Cons.IH)
  then show ?case by simp
qed

lemma Funcs_register_new:
  assumes "Funcs c k = None" and "Funcs (register f p c) k = Some n"
  shows "k = buildSSAFuncName f \<and> isProjectPackage c p \<and> n = minimalFuncNode f k p"
proof (cases "Funcs c (buildSSAFuncName f) = None \<and> isProjectPackage c p")
  case True
  with assms show ?thesis
    by (cases "k = buildSSAFuncName f") (simp_all add: register_def)
next
  case False
  then have "register f p c = c" unfolding register_def by (rule if_not_P)
  with assms show ?thesis by simp
qed

lemma Funcs_register_dom:
  "isProjectPackage c p \<Longrightarrow> \<exists>n. Funcs (register f p c) (buildSSAFuncName f) = Some n"
  by (cases "Funcs c (buildSSAFuncName f)") (simp_all add: register_def)

lemma isProjectPackage_register [simp]:
  "isProjectPackage (register f p c) q = isProjectPackage c q"
  by (rule isProjectPackage_cong) simp

lemma Funcs_visitEdge_new:
  assumes none: "Funcs c k = None" and some: "Funcs (visitEdge e c) k = Some n"
  shows "emits c e \<and> (\<exists>g q. (g = Caller e \<or> g = Callee e) \<and> fn_Pkg g = Some q \<and>
           isProjectPackage c q \<and> buildSSAFuncName g = k \<and> n = minimalFuncNode g k q)"
proof (cases "emits c e")
  case False
  with none some show ?thesis by (simp add: visitEdge_skip)
next
  case True
  from True obtain a b where ab: "fn_Pkg (Caller e) = Some a" "fn_Pkg (Callee e) = Some b"
    using emits_Pkg by blast
  define c1 where "c1 = c\<lparr>Calls := Calls c @ [mkCallEdge c e]\<rparr>"
  define c2 where "c2 = register (Caller e) a c1"
  have v: "visitEdge e c = register (Callee e) b c2"
    unfolding c2_def c1_def by (rule visitEdge_emits [OF True ab])
  have none1: "Funcs c1 k = None" using none by (simp add: c1_def)
  have p1: "isProjectPackage c1 = isProjectPackage c" by (rule ext) (simp add: c1_def)
  show ?thesis
  proof (cases "Funcs c2 k")
    case None
    from Funcs_register_new [OF None some [unfolded v]]
    have "k = buildSSAFuncName (Callee e)" "isProjectPackage c2 b"
         "n = minimalFuncNode (Callee e) k b" by simp_all
    moreover have "isProjectPackage c2 b = isProjectPackage c b"
      by (simp add: c2_def p1)
    ultimately show ?thesis using True ab by blast
  next
    case (Some n')
    then have "Funcs (register (Callee e) b c2) k = Some n'" by (rule Funcs_register_keep)
    with some v have nn: "n' = n" by simp
    from Funcs_register_new [OF none1 Some [unfolded c2_def]]
    have "k = buildSSAFuncName (Caller e)" "isProjectPackage c1 a"
         "n' = minimalFuncNode (Caller e) k a" by simp_all
    then show ?thesis using True ab nn p1 by auto
  qed
qed

lemma Funcs_visitEdge_dom:
  assumes e: "emits c e" and g: "g = Caller e \<or> g = Callee e"
    and q: "fn_Pkg g = Some q" and proj: "isProjectPackage c q"
  shows "\<exists>n. Funcs (visitEdge e c) (buildSSAFuncName g) = Some n"
proof -
  from e obtain a b where ab: "fn_Pkg (Caller e) = Some a" "fn_Pkg (Callee e) = Some b"
    using emits_Pkg by blast
  define c1 where "c1 = c\<lparr>Calls := Calls c @ [mkCallEdge c e]\<rparr>"
  define c2 where "c2 = register (Caller e) a c1"
  have v: "visitEdge e c = register (Callee e) b c2"
    unfolding c2_def c1_def by (rule visitEdge_emits [OF e ab])
  have p1: "isProjectPackage c1 q = isProjectPackage c q" by (simp add: c1_def)
  have p2: "isProjectPackage c2 q = isProjectPackage c q" by (simp add: c2_def p1)
  from g show ?thesis
  proof
    assume gc: "g = Caller e"
    with q ab have "q = a" by simp
    with proj p1 have "isProjectPackage c1 a" by simp
    then obtain n where "Funcs c2 (buildSSAFuncName (Caller e)) = Some n"
      unfolding c2_def using Funcs_register_dom by blast
    then have "Funcs (register (Callee e) b c2) (buildSSAFuncName (Caller e)) = Some n"
      by (rule Funcs_register_keep)
    then show ?thesis using gc v by simp
  next
    assume gc: "g = Callee e"
    with q ab have "q = b" by simp
    with proj p2 have "isProjectPackage c2 b" by simp
    then show ?thesis unfolding v gc by (rule Funcs_register_dom)
  qed
qed

lemma Funcs_CollectCallGraph_dom:
  assumes "e \<in> set cg" and "emits c e" and "g = Caller e \<or> g = Callee e"
    and "fn_Pkg g = Some q" and "isProjectPackage c q"
  shows "\<exists>n. Funcs (CollectCallGraph c cg) (buildSSAFuncName g) = Some n"
  using assms
proof (induction cg arbitrary: c)
  case Nil
  then show ?case by simp
next
  case (Cons x cg)
  have r: "RootModule (visitEdge x c) = RootModule c" by simp
  have step: "CollectCallGraph c (x # cg) = CollectCallGraph (visitEdge x c) cg"
    by (simp add: CollectCallGraph_def)
  show ?case
  proof (cases "e = x")
    case True
    from Funcs_visitEdge_dom [OF Cons.prems(2) Cons.prems(3) Cons.prems(4) Cons.prems(5)]
    obtain n where "Funcs (visitEdge x c) (buildSSAFuncName g) = Some n"
      using True by blast
    then have "Funcs (CollectCallGraph (visitEdge x c) cg) (buildSSAFuncName g) = Some n"
      by (rule Funcs_CollectCallGraph_keep)
    then show ?thesis using step by simp
  next
    case False
    with Cons.prems(1) have "e \<in> set cg" by simp
    moreover have "emits (visitEdge x c) e"
      using Cons.prems(2) emits_cong [OF r] by simp
    moreover have "isProjectPackage (visitEdge x c) q"
      using Cons.prems(5) isProjectPackage_cong [OF r] by simp
    ultimately show ?thesis
      using Cons.IH [of "visitEdge x c"] Cons.prems(3,4) step by simp
  qed
qed

lemma Funcs_CollectCallGraph_new:
  assumes "Funcs c k = None" and "Funcs (CollectCallGraph c cg) k = Some n"
  shows "\<exists>e g q. e \<in> set cg \<and> emits c e \<and> (g = Caller e \<or> g = Callee e) \<and>
           fn_Pkg g = Some q \<and> isProjectPackage c q \<and> buildSSAFuncName g = k \<and>
           n = minimalFuncNode g k q"
  using assms
proof (induction cg arbitrary: c)
  case Nil
  then show ?case by (simp add: CollectCallGraph_def)
next
  case (Cons x cg)
  have r: "RootModule (visitEdge x c) = RootModule c" by simp
  have step: "CollectCallGraph c (x # cg) = CollectCallGraph (visitEdge x c) cg"
    by (simp add: CollectCallGraph_def)
  show ?case
  proof (cases "Funcs (visitEdge x c) k")
    case None
    from Cons.IH [OF None] Cons.prems(2) step
    obtain e g q where h: "e \<in> set cg" "emits (visitEdge x c) e" "g = Caller e \<or> g = Callee e"
      "fn_Pkg g = Some q" "isProjectPackage (visitEdge x c) q" "buildSSAFuncName g = k"
      "n = minimalFuncNode g k q" by auto
    have "emits c e" using h(2) emits_cong [OF r] by simp
    moreover have "isProjectPackage c q" using h(5) isProjectPackage_cong [OF r] by simp
    ultimately show ?thesis using h by (intro exI [of _ e] exI [of _ g] exI [of _ q]) simp
  next
    case (Some n')
    then have "Funcs (CollectCallGraph (visitEdge x c) cg) k = Some n'"
      by (rule Funcs_CollectCallGraph_keep)
    with Cons.prems(2) step have nn: "n' = n" by simp
    from Funcs_visitEdge_new [OF Cons.prems(1) Some] nn
    obtain g q where "emits c x" "g = Caller x \<or> g = Callee x" "fn_Pkg g = Some q"
      "isProjectPackage c q" "buildSSAFuncName g = k" "n = minimalFuncNode g k q" by auto
    then show ?thesis by (intro exI [of _ x] exI [of _ g] exI [of _ q]) simp
  qed
qed

lemmas ex_defs = ex_main_def ex_helper_def ex_Println_def ex_A_Handle_def ex_B_Handle_def
  ex_wrapper_def ex_V_Handle_def ex_wrapper_call_def ex_pos_def ex_static_def ex_invoke_def ex_abs_def ex_mainNode_def

lemmas cg_eval = CollectCallGraph_def visitEdge_def mkCallEdge_def siteString_def
  buildSSAFuncName_def minimalFuncNode_def isProjectPackage_def relPath_def Index_def
  HasPrefix_def NewCollector_def putFunc_def Sprintf_d_def decimal.simps digit_def Let_def

text \<open>
  C10. The call-graph pass never modifies a function node that already exists: a record
  stored under a key before the pass is stored unchanged under that key after it.
\<close>

theorem CollectCallGraph_keeps_existing_nodes:
  "Funcs c k = Some n \<Longrightarrow> Funcs (CollectCallGraph c cg) k = Some n"
  by (rule Funcs_CollectCallGraph_keep)

theorem CollectCallGraph_keeps_existing_nodes_witness:
  "Funcs (putFunc ex_mainNode (NewCollector ''app'')) ''app.main'' = Some ex_mainNode \<and>
   Funcs (CollectCallGraph (putFunc ex_mainNode (NewCollector ''app''))
            [ex_static ex_main ex_helper 5 2]) ''app.main'' = Some ex_mainNode"
proof -
  have h: "Funcs (putFunc ex_mainNode (NewCollector ''app'')) ''app.main'' = Some ex_mainNode"
    by (simp add: putFunc_def NewCollector_def ex_mainNode_def)
  from h CollectCallGraph_keeps_existing_nodes [OF h] show ?thesis by (rule conjI)
qed

text \<open>
  C4, as the claim states it: every endpoint of an emitted call edge that is not yet a
  known function node is registered, so both endpoints of every edge are nodes. It fails
  for an endpoint outside the project: the call from \<open>app.main\<close> to \<open>fmt.Println\<close> is
  emitted, and \<open>fmt.Println\<close> is not registered.
\<close>

theorem CollectCallGraph_foreign_endpoint_counterexample:
  "Calls (CollectCallGraph (NewCollector ''app'') [ex_static ex_main ex_Println 4 2]) =
     [\<lparr>CallerFullName = ''app.main'', CalleeFullName = ''fmt.Println'', IsDynamic = False,
       Site = ''main.go:4''\<rparr>] \<and>
   Funcs (CollectCallGraph (NewCollector ''app'') [ex_static ex_main ex_Println 4 2])
     ''fmt.Println'' = None"
  by (simp add: cg_eval ex_defs)

text \<open>
  C4, amended: every in-project endpoint of an emitted call edge whose key is not yet in
  the function map is registered under its key by the pass, as a minimal node: name, key,
  package and exported flag of the first registered function with that key, no file, line
  0, no receiver, not a method.
\<close>

theorem CollectCallGraph_registers_project_endpoint:
  assumes "e \<in> set cg"
    and "fn_Pkg (Caller e) = Some a" and "fn_Pkg (Callee e) = Some b"
    and "(f = Caller e \<and> p = a) \<or> (f = Callee e \<and> p = b)"
    and "isProjectPackage c p"
    and "Funcs c (buildSSAFuncName f) = None"
  shows "\<exists>n g q e'. Funcs (CollectCallGraph c cg) (buildSSAFuncName f) = Some n \<and>
           e' \<in> set cg \<and> (g = Caller e' \<or> g = Callee e') \<and> fn_Pkg g = Some q \<and>
           isProjectPackage c q \<and> buildSSAFuncName g = buildSSAFuncName f \<and>
           n = minimalFuncNode g (buildSSAFuncName f) q \<and>
           Name n = fn_Name g \<and> FullName n = buildSSAFuncName f \<and> Package n = q \<and>
           Exported n = (fn_Object g = Some True) \<and>
           File n = [] \<and> Line n = 0 \<and> Receiver n = [] \<and> \<not> IsMethod n"
proof -
  have fp: "fn_Pkg f = Some p" and fe: "f = Caller e \<or> f = Callee e"
    using assms(2,3,4) by auto
  have em: "emits c e"
    using assms(2,3,4,5) by (auto simp: emits_def)
  from Funcs_CollectCallGraph_dom [OF assms(1) em fe fp assms(5)]
  obtain n where n: "Funcs (CollectCallGraph c cg) (buildSSAFuncName f) = Some n" by blast
  from Funcs_CollectCallGraph_new [OF assms(6) n]
  obtain e' g q where h: "e' \<in> set cg" "g = Caller e' \<or> g = Callee e'" "fn_Pkg g = Some q"
    "isProjectPackage c q" "buildSSAFuncName g = buildSSAFuncName f"
    "n = minimalFuncNode g (buildSSAFuncName f) q" by blast
  have "Name n = fn_Name g \<and> FullName n = buildSSAFuncName f \<and> Package n = q \<and>
        Exported n = (fn_Object g = Some True) \<and>
        File n = [] \<and> Line n = 0 \<and> Receiver n = [] \<and> \<not> IsMethod n"
    by (cases "fn_Object g") (simp_all add: h(6) minimalFuncNode_def)
  with n h show ?thesis by blast
qed

theorem CollectCallGraph_registers_project_endpoint_witness:
  "Funcs (CollectCallGraph (NewCollector ''app'') [ex_static ex_main ex_helper 5 2])
     ''app.helper'' \<noteq> None \<and>
   Funcs (NewCollector ''app'') ''app.helper'' = None"
proof -
  have k: "buildSSAFuncName ex_helper = ''app.helper''"
    by (simp add: buildSSAFuncName_def ex_helper_def)
  have n: "Funcs (NewCollector ''app'') (buildSSAFuncName ex_helper) = None"
    by (simp add: NewCollector_def)
  have "\<exists>n g q e'. Funcs (CollectCallGraph (NewCollector ''app'')
            [ex_static ex_main ex_helper 5 2]) (buildSSAFuncName ex_helper) = Some n \<and>
           e' \<in> set [ex_static ex_main ex_helper 5 2] \<and> (g = Caller e' \<or> g = Callee e') \<and>
           fn_Pkg g = Some q \<and> isProjectPackage (NewCollector ''app'') q \<and>
           buildSSAFuncName g = buildSSAFuncName ex_helper \<and>
           n = minimalFuncNode g (buildSSAFuncName ex_helper) q \<and>
           Name n = fn_Name g \<and> FullName n = buildSSAFuncName ex_helper \<and> Package n = q \<and>
           Exported n = (fn_Object g = Some True) \<and>
           File n = [] \<and> Line n = 0 \<and> Receiver n = [] \<and> \<not> IsMethod n"
    by (rule CollectCallGraph_registers_project_endpoint
          [of "ex_static ex_main ex_helper 5 2" _ "''app''" "''app''" ex_helper "''app''"])
       (simp_all add: ex_defs isProjectPackage_def NewCollector_def HasPrefix_def
          buildSSAFuncName_def)
  then show ?thesis using n k by auto
qed

text \<open>
  C7, as the claim states it: every call edge of a dynamic call that the analysis resolves
  is reported. The call graph is the one the VTA library computes; the pass drops every
  edge one of whose functions has no package. For the call in \<open>main\<close> through an
  interface holding a \<open>*V\<close>, the analysis gives the edge to the synthetic wrapper
  \<open>(*V).Handle\<close> and the edge from the wrapper to the declared method of \<open>V\<close>; neither
  is reported, and no edge to the method of \<open>V\<close> is in the result.
\<close>

theorem CollectCallGraph_wrapper_edge_counterexample:
  "Calls (CollectCallGraph (NewCollector ''app'')
            [ex_invoke ex_main ex_wrapper 9 2, ex_wrapper_call]) = []"
  by (simp add: cg_eval ex_defs)

text \<open>
  C7, amended: every edge of the call graph computed by the analysis whose caller and
  callee both have a package, at least one of them in-project, is reported as a call edge
  with the keys of both functions; so when the graph has an edge to the method of \<open>A\<close> and
  an edge to the method of \<open>B\<close> for one dynamic call, both are reported.
\<close>

theorem CollectCallGraph_reports_edge:
  assumes "e \<in> set cg"
    and "fn_Pkg (Caller e) = Some a" and "fn_Pkg (Callee e) = Some b"
    and "isProjectPackage c a \<or> isProjectPackage c b"
  shows "\<exists>x. x \<in> set (Calls (CollectCallGraph c cg)) \<and> x = mkCallEdge c e \<and>
           CallerFullName x = buildSSAFuncName (Caller e) \<and>
           CalleeFullName x = buildSSAFuncName (Callee e) \<and>
           IsDynamic x = (case EdgeSite e of None \<Rightarrow> False | Some i \<Rightarrow> IsInvoke i)"
proof -
  have "emits c e" using assms(2,3,4) by (simp add: emits_def)
  with assms(1) have "mkCallEdge c e \<in> set (Calls (CollectCallGraph c cg))"
    by (simp add: Calls_CollectCallGraph)
  then show ?thesis by (simp add: mkCallEdge_def)
qed

theorem CollectCallGraph_reports_edge_witness:
  "\<lparr>CallerFullName = ''app.main'', CalleeFullName = ''app.A.Handle'', IsDynamic = True,
     Site = ''main.go:9''\<rparr>
     \<in> set (Calls (CollectCallGraph (NewCollector ''app'')
          [ex_invoke ex_main ex_A_Handle 9 2, ex_invoke ex_main ex_B_Handle 9 2])) \<and>
   \<lparr>CallerFullName = ''app.main'', CalleeFullName = ''app.B.Handle'', IsDynamic = True,
     Site = ''main.go:9''\<rparr>
     \<in> set (Calls (CollectCallGraph (NewCollector ''app'')
          [ex_invoke ex_main ex_A_Handle 9 2, ex_invoke ex_main ex_B_Handle 9 2]))"
proof -
  have p: "isProjectPackage (NewCollector ''app'') ''app'' \<or>
           isProjectPackage (NewCollector ''app'') ''app''"
    by (simp add: isProjectPackage_def NewCollector_def HasPrefix_def)
  have a: "mkCallEdge (NewCollector ''app'') (ex_invoke ex_main ex_A_Handle 9 2) =
     \<lparr>CallerFullName = ''app.main'', CalleeFullName = ''app.A.Handle'', IsDynamic = True,
      Site = ''main.go:9''\<rparr>"
    by (simp add: cg_eval ex_defs)
  have b: "mkCallEdge (NewCollector ''app'') (ex_invoke ex_main ex_B_Handle 9 2) =
     \<lparr>CallerFullName = ''app.main'', CalleeFullName = ''app.B.Handle'', IsDynamic = True,
      Site = ''main.go:9''\<rparr>"
    by (simp add: cg_eval ex_defs)
  have "mkCallEdge (NewCollector ''app'') (ex_invoke ex_main ex_A_Handle 9 2)
          \<in> set (Calls (CollectCallGraph (NewCollector ''app'')
               [ex_invoke ex_main ex_A_Handle 9 2, ex_invoke ex_main ex_B_Handle 9 2]))"
    using CollectCallGraph_reports_edge
      [of "ex_invoke ex_main ex_A_Handle 9 2" _ "''app''" "''app''", OF _ _ _ p]
    by (simp add: ex_defs)
  moreover have "mkCallEdge (NewCollector ''app'') (ex_invoke ex_main ex_B_Handle 9 2)
          \<in> set (Calls (CollectCallGraph (NewCollector ''app'')
               [ex_invoke ex_main ex_A_Handle 9 2, ex_invoke ex_main ex_B_Handle 9 2]))"
    using CollectCallGraph_reports_edge
      [of "ex_invoke ex_main ex_B_Handle 9 2" _ "''app''" "''app''", OF _ _ _ p]
    by (simp add: ex_defs)
  ultimately show ?thesis by (simp only: a b)
qed

text \<open>
  C8. The claim: every emitted call edge carries its call site as a project-relative
  \<open>file:line\<close> string. \<open>relPath\<close>, which is to return a path relative to the project
  root, looks for the module path inside the file name; the file name of a position is a
  path of the file system, and where the module path does not occur in it, it is returned
  as it is. For the module \<open>example.com/app\<close> checked out in \<open>/home/u/app\<close>, the call on
  line 7 of \<open>main.go\<close> gets the site \<open>/home/u/app/main.go:7\<close>, not \<open>main.go:7\<close>.
\<close>

theorem CollectCallGraph_site_absolute_path:
  "relPath (NewCollector ''example.com/app'') ''/home/u/app/main.go'' = ''/home/u/app/main.go'' \<and>
   Calls (CollectCallGraph (NewCollector ''example.com/app'') [ex_abs]) =
     [\<lparr>CallerFullName = ''example.com/app.main'',
       CalleeFullName = ''example.com/app.helper'', IsDynamic = False,
       Site = ''/home/u/app/main.go:7''\<rparr>]"
  by (simp add: cg_eval ex_defs)

section \<open>The implements check\<close>

lemma fold_product:
  "fold (\<lambda>a s. fold (f a) ys s) xs s = fold (\<lambda>p. f (fst p) (snd p)) (List.product xs ys) s"
  by (induction xs arbitrary: s) (simp_all add: fold_map comp_def)

lemma checkPair_eq:
  "checkPair impl cn i st =
     (if fst st (edgeKeyOf (cn, i)) then st
      else if satisfies impl (cn, i)
      then ((fst st)(edgeKeyOf (cn, i) := True), snd st @ [edgeOf (cn, i)])
      else st)"
  by (simp add: checkPair_def edgeKeyOf_def satisfies_def edgeOf_def Let_def)

lemma checkAll_eq:
  "checkAll impl cs is st =
     fold (\<lambda>p. checkPair impl (fst p) (snd p)) (List.product cs is) st"
  unfolding checkAll_def by (rule fold_product)

lemma CollectImplements_eq:
  "Implements (CollectImplementsFromPackages impl c pkgs) =
     snd (fold (\<lambda>p. checkPair impl (fst p) (snd p))
            (List.product (snd (gathered c pkgs)) (fst (gathered c pkgs)))
            (\<lambda>_. False, Implements c))"
  by (simp add: CollectImplementsFromPackages_def gathered_def Let_def checkAll_eq)

text \<open>Every appended edge is the edge of a satisfying pair of the list, and its key is
  marked as seen.\<close>

lemma fold_checkPair_sound:
  assumes "x \<in> set (snd (fold (\<lambda>p. checkPair impl (fst p) (snd p)) ps st))"
    and "x \<notin> set (snd st)"
  shows "\<exists>p\<in>set ps. x = edgeOf p \<and> satisfies impl p"
  using assms
proof (induction ps arbitrary: st)
  case Nil
  then show ?case by simp
next
  case (Cons q ps)
  define st1 where "st1 = checkPair impl (fst q) (snd q) st"
  have f: "fold (\<lambda>p. checkPair impl (fst p) (snd p)) (q # ps) st =
           fold (\<lambda>p. checkPair impl (fst p) (snd p)) ps st1"
    by (simp add: st1_def)
  show ?case
  proof (cases "x \<in> set (snd st1)")
    case True
    with Cons.prems(2) have "x = edgeOf q \<and> satisfies impl q"
      unfolding st1_def checkPair_eq by (auto split: if_splits)
    then show ?thesis by simp
  next
    case False
    from Cons.IH [OF Cons.prems(1) [unfolded f] False] show ?thesis by auto
  qed
qed

text \<open>The edges stay pairwise distinct by key as long as every edge already present has
  its key marked as seen.\<close>

lemma fold_checkPair_distinct:
  assumes "distinct (map implKey (snd st))"
    and "\<And>x. x \<in> set (snd st) \<Longrightarrow> fst st (Struct x @ ''->'' @ Interface x)"
  shows "distinct (map implKey (snd (fold (\<lambda>p. checkPair impl (fst p) (snd p)) ps st)))"
  using assms
proof (induction ps arbitrary: st)
  case Nil
  then show ?case by simp
next
  case (Cons q ps)
  define st1 where "st1 = checkPair impl (fst q) (snd q) st"
  have d: "distinct (map implKey (snd st1))"
  proof (cases "fst st (edgeKeyOf q) \<or> \<not> satisfies impl q")
    case True
    then have "st1 = st" unfolding st1_def checkPair_eq by auto
    with Cons.prems(1) show ?thesis by simp
  next
    case False
    then have s: "snd st1 = snd st @ [edgeOf q]" unfolding st1_def checkPair_eq by auto
    have "implKey (edgeOf q) \<notin> implKey ` set (snd st)"
    proof
      assume "implKey (edgeOf q) \<in> implKey ` set (snd st)"
      then obtain x where x: "x \<in> set (snd st)" "implKey x = implKey (edgeOf q)" by auto
      from x(2) have "Struct x @ ''->'' @ Interface x = edgeKeyOf q"
        by (simp add: implKey_def edgeOf_def edgeKeyOf_def)
      with Cons.prems(2) [OF x(1)] False show False by simp
    qed
    with Cons.prems(1) show ?thesis by (simp add: s)
  qed
  have m: "\<And>x. x \<in> set (snd st1) \<Longrightarrow> fst st1 (Struct x @ ''->'' @ Interface x)"
  proof -
    fix x assume x: "x \<in> set (snd st1)"
    show "fst st1 (Struct x @ ''->'' @ Interface x)"
    proof (cases "fst st (edgeKeyOf q) \<or> \<not> satisfies impl q")
      case True
      then have "st1 = st" unfolding st1_def checkPair_eq by auto
      with x Cons.prems(2) show ?thesis by simp
    next
      case False
      then have s: "st1 = ((fst st)(edgeKeyOf q := True), snd st @ [edgeOf q])"
        unfolding st1_def checkPair_eq by auto
      from x s have "x \<in> set (snd st) \<or> x = edgeOf q" by auto
      then show ?thesis
      proof
        assume "x \<in> set (snd st)"
        then show ?thesis using Cons.prems(2) s by simp
      next
        assume "x = edgeOf q"
        then show ?thesis using s by (simp add: edgeOf_def edgeKeyOf_def)
      qed
    qed
  qed
  have "distinct (map implKey (snd (fold (\<lambda>p. checkPair impl (fst p) (snd p)) ps st1)))"
    using d m by (rule Cons.IH)
  then show ?case by (simp add: st1_def)
qed

text \<open>The number of edges with the key of a pair \<open>p0\<close>, when no other pair of the list
  has the edge key of \<open>p0\<close>.\<close>

lemma fold_checkPair_count:
  assumes "\<And>p. p \<in> set ps \<Longrightarrow> edgeKeyOf p = edgeKeyOf p0 \<Longrightarrow> p = p0"
  shows "(let st' = fold (\<lambda>p. checkPair impl (fst p) (snd p)) ps st;
              cnt = (\<lambda>s. length (filter (\<lambda>x. implKey x = implKey (edgeOf p0)) (snd s)))
          in if fst st (edgeKeyOf p0) then fst st' (edgeKeyOf p0) \<and> cnt st' = cnt st
             else if p0 \<in> set ps \<and> satisfies impl p0
             then fst st' (edgeKeyOf p0) \<and> cnt st' = cnt st + 1
             else \<not> fst st' (edgeKeyOf p0) \<and> cnt st' = cnt st)"
  using assms
proof (induction ps arbitrary: st)
  case Nil
  then show ?case by (simp add: Let_def)
next
  case (Cons q ps)
  define cnt where "cnt = (\<lambda>s :: (string \<Rightarrow> bool) \<times> ImplementsEdge list.
     length (filter (\<lambda>x. implKey x = implKey (edgeOf p0)) (snd s)))"
  define st1 where "st1 = checkPair impl (fst q) (snd q) st"
  define st' where "st' = fold (\<lambda>p. checkPair impl (fst p) (snd p)) ps st1"
  have f: "fold (\<lambda>p. checkPair impl (fst p) (snd p)) (q # ps) st = st'"
    by (simp add: st1_def st'_def)
  have inj: "\<And>p. p \<in> set ps \<Longrightarrow> edgeKeyOf p = edgeKeyOf p0 \<Longrightarrow> p = p0"
    using Cons.prems by simp
  have IH: "if fst st1 (edgeKeyOf p0) then fst st' (edgeKeyOf p0) \<and> cnt st' = cnt st1
            else if p0 \<in> set ps \<and> satisfies impl p0
            then fst st' (edgeKeyOf p0) \<and> cnt st' = cnt st1 + 1
            else \<not> fst st' (edgeKeyOf p0) \<and> cnt st' = cnt st1"
    using Cons.IH [OF inj, of st1] by (simp add: Let_def st'_def cnt_def)
  have keyeq: "implKey (edgeOf q) = implKey (edgeOf p0) \<Longrightarrow> edgeKeyOf q = edgeKeyOf p0"
    by (simp add: implKey_def edgeOf_def edgeKeyOf_def)
  have goal: "if fst st (edgeKeyOf p0) then fst st' (edgeKeyOf p0) \<and> cnt st' = cnt st
            else if p0 \<in> set (q # ps) \<and> satisfies impl p0
            then fst st' (edgeKeyOf p0) \<and> cnt st' = cnt st + 1
            else \<not> fst st' (edgeKeyOf p0) \<and> cnt st' = cnt st"
  proof (cases "edgeKeyOf q = edgeKeyOf p0")
    case True
    then have qp: "q = p0" using Cons.prems by simp
    show ?thesis
    proof (cases "fst st (edgeKeyOf p0)")
      case True
      then have "st1 = st" unfolding st1_def checkPair_eq qp by simp
      with IH True show ?thesis by simp
    next
      case seen: False
      show ?thesis
      proof (cases "satisfies impl p0")
        case True
        then have s: "st1 = ((fst st)(edgeKeyOf p0 := True), snd st @ [edgeOf p0])"
          unfolding st1_def checkPair_eq qp using seen by simp
        then have "fst st1 (edgeKeyOf p0)" and "cnt st1 = cnt st + 1"
          by (simp_all add: cnt_def)
        with IH seen True qp show ?thesis by simp
      next
        case False
        then have "st1 = st" unfolding st1_def checkPair_eq qp by simp
        with IH seen False show ?thesis by simp
      qed
    qed
  next
    case False
    then have ne: "q \<noteq> p0" by auto
    have k: "fst st1 (edgeKeyOf p0) = fst st (edgeKeyOf p0)"
      unfolding st1_def checkPair_eq using False by simp
    have c: "cnt st1 = cnt st"
      unfolding st1_def checkPair_eq cnt_def using False keyeq by auto
    from IH k c ne show ?thesis by auto
  qed
  show ?case unfolding f Let_def using goal [unfolded cnt_def] .
qed

section \<open>Loops as folds\<close>

lemma fold_invariant:
  assumes "\<And>x s. x \<in> set xs \<Longrightarrow> P s \<Longrightarrow> P (f x s)" and "P s"
  shows "P (fold f xs s)"
  using assms by (induction xs arbitrary: s) simp_all

lemma fold_reach:
  assumes "x \<in> set xs" and "\<And>s. Q (f x s)" and "\<And>y s. Q s \<Longrightarrow> Q (f y s)"
  shows "Q (fold f xs s)"
  using assms(1)
proof (induction xs arbitrary: s)
  case Nil
  then show ?case by simp
next
  case (Cons y ys)
  show ?case
  proof (cases "x \<in> set ys")
    case True
    then show ?thesis using Cons.IH by simp
  next
    case False
    with Cons.prems have "y = x" by simp
    then have "Q (f y s)" using assms(2) by simp
    then have "Q (fold f ys (f y s))"
      by (rule fold_invariant [where P = Q, rotated]) (rule assms(3))
    then show ?thesis by simp
  qed
qed

section \<open>The gathering visit\<close>

lemma gatherObject_keeps_concrete:
  "x \<in> set (snd acc) \<Longrightarrow> x \<in> set (snd (gatherObject p e acc))"
  by (cases e) (simp add: gatherObject_def split: Object.splits Underlying.splits)

lemma gatherObject_keeps_iface:
  "x \<in> set (fst acc) \<Longrightarrow> x \<in> set (fst (gatherObject p e acc))"
  by (cases e) (simp add: gatherObject_def split: Object.splits Underlying.splits)

lemma gatherObject_struct:
  "tn_Underlying tn = UStruct nf \<Longrightarrow>
   \<lparr>ce_key = p @ ''.'' @ name, ce_typ = tn_Type tn, ce_name = name, ce_pkg = p\<rparr>
     \<in> set (snd (gatherObject p (name, TypeName tn) acc))"
  by (simp add: gatherObject_def)

lemma gatherObject_iface:
  "tn_Underlying tn = UInterface t \<Longrightarrow> NumMethods t > 0 \<Longrightarrow>
   \<lparr>ie_key = p @ ''.'' @ name, ie_typ = t, ie_name = name, ie_pkg = p\<rparr>
     \<in> set (fst (gatherObject p (name, TypeName tn) acc))"
  by (simp add: gatherObject_def)

lemma gatherObject_iface_origin:
  assumes "i \<in> set (fst (gatherObject p e acc))" and "i \<notin> set (fst acc)"
  shows "\<exists>name tn t. e = (name, TypeName tn) \<and> tn_Underlying tn = UInterface t \<and>
           NumMethods t > 0 \<and>
           i = \<lparr>ie_key = p @ ''.'' @ name, ie_typ = t, ie_name = name, ie_pkg = p\<rparr>"
  using assms
  by (cases e) (auto simp: gatherObject_def split: Object.splits Underlying.splits if_splits)

lemma gatherPackage_keeps_concrete:
  "x \<in> set (snd acc) \<Longrightarrow> x \<in> set (snd (gatherPackage c pkg acc))"
  unfolding gatherPackage_def
  by (simp add: fold_invariant [where P = "\<lambda>a. x \<in> set (snd a)"] gatherObject_keeps_concrete)

lemma gatherPackage_keeps_iface:
  "x \<in> set (fst acc) \<Longrightarrow> x \<in> set (fst (gatherPackage c pkg acc))"
  unfolding gatherPackage_def
  by (simp add: fold_invariant [where P = "\<lambda>a. x \<in> set (fst a)"] gatherObject_keeps_iface)

lemma gathered_concrete:
  assumes "pkg \<in> set pkgs" and "isProjectPackage c (PkgPath pkg)"
    and "(name, TypeName tn) \<in> set (Scope pkg)" and "tn_Underlying tn = UStruct nf"
  shows "\<lparr>ce_key = PkgPath pkg @ ''.'' @ name, ce_typ = tn_Type tn, ce_name = name,
           ce_pkg = PkgPath pkg\<rparr> \<in> set (snd (gathered c pkgs))"
proof -
  define x where "x = \<lparr>ce_key = PkgPath pkg @ ''.'' @ name, ce_typ = tn_Type tn,
    ce_name = name, ce_pkg = PkgPath pkg\<rparr>"
  have "x \<in> set (snd (fold (gatherPackage c) pkgs ([], [])))"
  proof (rule fold_reach [where Q = "\<lambda>a. x \<in> set (snd a)", OF assms(1)])
    fix s :: "IfaceEntry list \<times> ConcreteEntry list"
    have "x \<in> set (snd (fold (gatherObject (PkgPath pkg)) (Scope pkg) s))"
    proof (rule fold_reach [where Q = "\<lambda>a. x \<in> set (snd a)", OF assms(3)])
      fix a :: "IfaceEntry list \<times> ConcreteEntry list"
      show "x \<in> set (snd (gatherObject (PkgPath pkg) (name, TypeName tn) a))"
        unfolding x_def by (rule gatherObject_struct [OF assms(4)])
    next
      fix y :: "string \<times> Object" and a :: "IfaceEntry list \<times> ConcreteEntry list"
      assume "x \<in> set (snd a)"
      then show "x \<in> set (snd (gatherObject (PkgPath pkg) y a))"
        by (rule gatherObject_keeps_concrete)
    qed
    then show "x \<in> set (snd (gatherPackage c pkg s))"
      using assms(2) by (simp add: gatherPackage_def)
  next
    fix y :: GoPackage and s :: "IfaceEntry list \<times> ConcreteEntry list"
    assume "x \<in> set (snd s)"
    then show "x \<in> set (snd (gatherPackage c y s))"
      by (rule gatherPackage_keeps_concrete)
  qed
  then show ?thesis by (simp only: gathered_def x_def)
qed

lemma gathered_iface:
  assumes "pkg \<in> set pkgs" and "isProjectPackage c (PkgPath pkg)"
    and "(name, TypeName tn) \<in> set (Scope pkg)" and "tn_Underlying tn = UInterface t"
    and "NumMethods t > 0"
  shows "\<lparr>ie_key = PkgPath pkg @ ''.'' @ name, ie_typ = t, ie_name = name,
           ie_pkg = PkgPath pkg\<rparr> \<in> set (fst (gathered c pkgs))"
proof -
  define x where "x = \<lparr>ie_key = PkgPath pkg @ ''.'' @ name, ie_typ = t,
    ie_name = name, ie_pkg = PkgPath pkg\<rparr>"
  have "x \<in> set (fst (fold (gatherPackage c) pkgs ([], [])))"
  proof (rule fold_reach [where Q = "\<lambda>a. x \<in> set (fst a)", OF assms(1)])
    fix s :: "IfaceEntry list \<times> ConcreteEntry list"
    have "x \<in> set (fst (fold (gatherObject (PkgPath pkg)) (Scope pkg) s))"
    proof (rule fold_reach [where Q = "\<lambda>a. x \<in> set (fst a)", OF assms(3)])
      fix a :: "IfaceEntry list \<times> ConcreteEntry list"
      show "x \<in> set (fst (gatherObject (PkgPath pkg) (name, TypeName tn) a))"
        unfolding x_def by (rule gatherObject_iface [OF assms(4,5)])
    next
      fix y :: "string \<times> Object" and a :: "IfaceEntry list \<times> ConcreteEntry list"
      assume "x \<in> set (fst a)"
      then show "x \<in> set (fst (gatherObject (PkgPath pkg) y a))"
        by (rule gatherObject_keeps_iface)
    qed
    then show "x \<in> set (fst (gatherPackage c pkg s))"
      using assms(2) by (simp add: gatherPackage_def)
  next
    fix y :: GoPackage and s :: "IfaceEntry list \<times> ConcreteEntry list"
    assume "x \<in> set (fst s)"
    then show "x \<in> set (fst (gatherPackage c y s))"
      by (rule gatherPackage_keeps_iface)
  qed
  then show ?thesis by (simp only: gathered_def x_def)
qed

lemma gathered_iface_origin:
  assumes "i \<in> set (fst (gathered c pkgs))"
  shows "ifaceOrigin c pkgs i"
proof -
  have "\<forall>i\<in>set (fst (gathered c pkgs)). ifaceOrigin c pkgs i"
    unfolding gathered_def
  proof (rule fold_invariant [where P = "\<lambda>a. \<forall>i\<in>set (fst a). ifaceOrigin c pkgs i"])
    show "\<forall>i\<in>set (fst (([], []) :: IfaceEntry list \<times> ConcreteEntry list)).
            ifaceOrigin c pkgs i" by simp
  next
    fix pkg :: GoPackage and acc :: "IfaceEntry list \<times> ConcreteEntry list"
    assume pkg: "pkg \<in> set pkgs" and acc: "\<forall>i\<in>set (fst acc). ifaceOrigin c pkgs i"
    show "\<forall>i\<in>set (fst (gatherPackage c pkg acc)). ifaceOrigin c pkgs i"
    proof (cases "isProjectPackage c (PkgPath pkg)")
      case False
      then show ?thesis using acc by (simp add: gatherPackage_def)
    next
      case True
      have "\<forall>i\<in>set (fst (fold (gatherObject (PkgPath pkg)) (Scope pkg) acc)).
              ifaceOrigin c pkgs i"
      proof (rule fold_invariant [where P = "\<lambda>a. \<forall>i\<in>set (fst a). ifaceOrigin c pkgs i"])
        show "\<forall>i\<in>set (fst acc). ifaceOrigin c pkgs i" by (rule acc)
      next
        fix e :: "string \<times> Object" and a :: "IfaceEntry list \<times> ConcreteEntry list"
        assume e: "e \<in> set (Scope pkg)" and a: "\<forall>i\<in>set (fst a). ifaceOrigin c pkgs i"
        show "\<forall>i\<in>set (fst (gatherObject (PkgPath pkg) e a)). ifaceOrigin c pkgs i"
        proof
          fix i assume i: "i \<in> set (fst (gatherObject (PkgPath pkg) e a))"
          show "ifaceOrigin c pkgs i"
          proof (cases "i \<in> set (fst a)")
            case True
            with a show ?thesis by simp
          next
            case False
            from gatherObject_iface_origin [OF i False] pkg True e
            show ?thesis unfolding ifaceOrigin_def by blast
          qed
        qed
      qed
      with True show ?thesis by (simp add: gatherPackage_def)
    qed
  qed
  with assms show ?thesis by simp
qed

section \<open>Keys of well-formed programs are unambiguous\<close>

lemma gatherObject_concrete_origin:
  assumes "x \<in> set (snd (gatherObject p e acc))" and "x \<notin> set (snd acc)"
  shows "\<exists>name tn nf. e = (name, TypeName tn) \<and> tn_Underlying tn = UStruct nf \<and>
           x = \<lparr>ce_key = p @ ''.'' @ name, ce_typ = tn_Type tn, ce_name = name, ce_pkg = p\<rparr>"
  using assms
  by (cases e) (auto simp: gatherObject_def split: Object.splits Underlying.splits if_splits)

lemma gathered_concrete_origin:
  assumes "x \<in> set (snd (gathered c pkgs))"
  shows "concreteOrigin c pkgs x"
proof -
  have "\<forall>x\<in>set (snd (gathered c pkgs)). concreteOrigin c pkgs x"
    unfolding gathered_def
  proof (rule fold_invariant [where P = "\<lambda>a. \<forall>x\<in>set (snd a). concreteOrigin c pkgs x"])
    show "\<forall>x\<in>set (snd (([], []) :: IfaceEntry list \<times> ConcreteEntry list)).
            concreteOrigin c pkgs x" by simp
  next
    fix pkg :: GoPackage and acc :: "IfaceEntry list \<times> ConcreteEntry list"
    assume pkg: "pkg \<in> set pkgs" and acc: "\<forall>x\<in>set (snd acc). concreteOrigin c pkgs x"
    show "\<forall>x\<in>set (snd (gatherPackage c pkg acc)). concreteOrigin c pkgs x"
    proof (cases "isProjectPackage c (PkgPath pkg)")
      case False
      then show ?thesis using acc by (simp add: gatherPackage_def)
    next
      case True
      have "\<forall>x\<in>set (snd (fold (gatherObject (PkgPath pkg)) (Scope pkg) acc)).
              concreteOrigin c pkgs x"
      proof (rule fold_invariant [where P = "\<lambda>a. \<forall>x\<in>set (snd a). concreteOrigin c pkgs x"])
        show "\<forall>x\<in>set (snd acc). concreteOrigin c pkgs x" by (rule acc)
      next
        fix e :: "string \<times> Object" and a :: "IfaceEntry list \<times> ConcreteEntry list"
        assume e: "e \<in> set (Scope pkg)" and a: "\<forall>x\<in>set (snd a). concreteOrigin c pkgs x"
        show "\<forall>x\<in>set (snd (gatherObject (PkgPath pkg) e a)). concreteOrigin c pkgs x"
        proof
          fix x assume x: "x \<in> set (snd (gatherObject (PkgPath pkg) e a))"
          show "concreteOrigin c pkgs x"
          proof (cases "x \<in> set (snd a)")
            case True
            with a show ?thesis by simp
          next
            case False
            from gatherObject_concrete_origin [OF x False] pkg True e
            show ?thesis unfolding concreteOrigin_def by blast
          qed
        qed
      qed
      with True show ?thesis by (simp add: gatherPackage_def)
    qed
  qed
  with assms show ?thesis by simp
qed

lemma goNames_name:
  assumes "goNames pkgs" and "pkg \<in> set pkgs" and "(n, ob) \<in> set (Scope pkg)"
  shows "CHR ''.'' \<notin> set n" and "CHR ''>'' \<notin> set n" and "CHR ''>'' \<notin> set (PkgPath pkg)"
proof -
  from assms(1,2) have a: "\<forall>entry\<in>set (Scope pkg).
      CHR ''.'' \<notin> set (fst entry) \<and> CHR ''>'' \<notin> set (fst entry)"
    and b: "CHR ''>'' \<notin> set (PkgPath pkg)"
    by (simp_all add: goNames_def)
  from a assms(3) have "CHR ''.'' \<notin> set (fst (n, ob)) \<and> CHR ''>'' \<notin> set (fst (n, ob))"
    by (rule bspec)
  then show "CHR ''.'' \<notin> set n" and "CHR ''>'' \<notin> set n" by simp_all
  show "CHR ''>'' \<notin> set (PkgPath pkg)" by (rule b)
qed

lemma first_split:
  assumes "x \<notin> set xs" and "x \<notin> set xs'" and "xs @ x # ys = xs' @ x # ys'"
  shows "xs = xs' \<and> ys = ys'"
proof -
  have "takeWhile (\<lambda>c. c \<noteq> x) (xs @ x # ys) = xs"
    using assms(1) by (induction xs) auto
  moreover have "takeWhile (\<lambda>c. c \<noteq> x) (xs' @ x # ys') = xs'"
    using assms(2) by (induction xs') auto
  ultimately have "xs = xs'" using assms(3) by simp
  with assms(3) show ?thesis by simp
qed

lemma key_split:
  assumes "CHR ''.'' \<notin> set n1" and "CHR ''.'' \<notin> set n2"
    and "p1 @ ''.'' @ n1 = p2 @ ''.'' @ n2"
  shows "p1 = p2 \<and> n1 = n2"
proof -
  from assms(3) have "rev (p1 @ ''.'' @ n1) = rev (p2 @ ''.'' @ n2)" by simp
  then have e: "rev n1 @ CHR ''.'' # rev p1 = rev n2 @ CHR ''.'' # rev p2" by simp
  have "CHR ''.'' \<notin> set (rev n1)" "CHR ''.'' \<notin> set (rev n2)" using assms(1,2) by simp_all
  from first_split [OF this e]
  have "rev n1 = rev n2 \<and> rev p1 = rev p2" .
  then show ?thesis by simp
qed

lemma edgeKey_split:
  assumes "CHR ''>'' \<notin> set k1" and "CHR ''>'' \<notin> set k2"
    and "k1 @ ''->'' @ j1 = k2 @ ''->'' @ j2"
  shows "k1 = k2 \<and> j1 = j2"
proof -
  from assms(3) have e: "(k1 @ ''-'') @ CHR ''>'' # j1 = (k2 @ ''-'') @ CHR ''>'' # j2" by simp
  have "CHR ''>'' \<notin> set (k1 @ ''-'')" "CHR ''>'' \<notin> set (k2 @ ''-'')"
    using assms(1,2) by simp_all
  from first_split [OF this e]
  have "k1 @ ''-'' = k2 @ ''-'' \<and> j1 = j2" .
  then show ?thesis by simp
qed

lemma goNames_entry:
  assumes g: "goNames pkgs"
    and 1: "pkg1 \<in> set pkgs" "(n1, o1) \<in> set (Scope pkg1)"
    and 2: "pkg2 \<in> set pkgs" "(n2, o2) \<in> set (Scope pkg2)"
    and k: "PkgPath pkg1 @ ''.'' @ n1 = PkgPath pkg2 @ ''.'' @ n2"
  shows "pkg1 = pkg2 \<and> n1 = n2 \<and> o1 = o2"
proof -
  note d1 = goNames_name(1) [OF g 1] and d2 = goNames_name(1) [OF g 2]
  from key_split [OF d1 d2 k] have p: "PkgPath pkg1 = PkgPath pkg2" and n: "n1 = n2" by simp_all
  have "inj_on PkgPath (set pkgs)" using g by (simp add: goNames_def distinct_map)
  from inj_onD [OF this p 1(1) 2(1)] have pk: "pkg1 = pkg2" .
  have i: "inj_on fst (set (Scope pkg1))" using g 1(1) by (simp add: goNames_def distinct_map)
  have f: "fst (n1, o1) = fst (n2, o2)" using n by simp
  have "(n2, o2) \<in> set (Scope pkg1)" using 2(2) pk by simp
  from inj_onD [OF i f 1(2) this] have "(n1, o1) = (n2, o2)" .
  with pk show ?thesis by simp
qed

lemma goNames_inj_on_edgeKeyOf:
  assumes g: "goNames pkgs"
  shows "inj_on edgeKeyOf (set (snd (gathered c pkgs)) \<times> set (fst (gathered c pkgs)))"
proof (rule inj_onI)
  fix x y :: "ConcreteEntry \<times> IfaceEntry"
  assume x: "x \<in> set (snd (gathered c pkgs)) \<times> set (fst (gathered c pkgs))"
    and y: "y \<in> set (snd (gathered c pkgs)) \<times> set (fst (gathered c pkgs))"
    and e: "edgeKeyOf x = edgeKeyOf y"
  from x have "concreteOrigin c pkgs (fst x)" "ifaceOrigin c pkgs (snd x)"
    by (auto intro: gathered_concrete_origin gathered_iface_origin)
  then obtain ps ns ts nf pi ni ti t where
    xs: "ps \<in> set pkgs" "(ns, TypeName ts) \<in> set (Scope ps)" "tn_Underlying ts = UStruct nf"
      "fst x = \<lparr>ce_key = PkgPath ps @ ''.'' @ ns, ce_typ = tn_Type ts, ce_name = ns,
                ce_pkg = PkgPath ps\<rparr>" and
    xi: "pi \<in> set pkgs" "(ni, TypeName ti) \<in> set (Scope pi)" "tn_Underlying ti = UInterface t"
      "snd x = \<lparr>ie_key = PkgPath pi @ ''.'' @ ni, ie_typ = t, ie_name = ni,
                ie_pkg = PkgPath pi\<rparr>"
    unfolding concreteOrigin_def ifaceOrigin_def by blast
  from y have "concreteOrigin c pkgs (fst y)" "ifaceOrigin c pkgs (snd y)"
    by (auto intro: gathered_concrete_origin gathered_iface_origin)
  then obtain ps' ns' ts' nf' pi' ni' ti' t' where
    ys: "ps' \<in> set pkgs" "(ns', TypeName ts') \<in> set (Scope ps')" "tn_Underlying ts' = UStruct nf'"
      "fst y = \<lparr>ce_key = PkgPath ps' @ ''.'' @ ns', ce_typ = tn_Type ts', ce_name = ns',
                ce_pkg = PkgPath ps'\<rparr>" and
    yi: "pi' \<in> set pkgs" "(ni', TypeName ti') \<in> set (Scope pi')" "tn_Underlying ti' = UInterface t'"
      "snd y = \<lparr>ie_key = PkgPath pi' @ ''.'' @ ni', ie_typ = t', ie_name = ni',
                ie_pkg = PkgPath pi'\<rparr>"
    unfolding concreteOrigin_def ifaceOrigin_def by blast
  have gx: "CHR ''>'' \<notin> set (ce_key (fst x))"
    using goNames_name(2,3) [OF g xs(1,2)] by (simp add: xs(4))
  have gy: "CHR ''>'' \<notin> set (ce_key (fst y))"
    using goNames_name(2,3) [OF g ys(1,2)] by (simp add: ys(4))
  from e have "ce_key (fst x) @ ''->'' @ ie_key (snd x) = ce_key (fst y) @ ''->'' @ ie_key (snd y)"
    by (simp add: edgeKeyOf_def)
  from edgeKey_split [OF gx gy this]
  have ck: "PkgPath ps @ ''.'' @ ns = PkgPath ps' @ ''.'' @ ns'"
    and ik: "PkgPath pi @ ''.'' @ ni = PkgPath pi' @ ''.'' @ ni'"
    by (simp_all add: xs(4) ys(4) xi(4) yi(4))
  from goNames_entry [OF g xs(1,2) ys(1,2) ck] have s: "ps = ps'" "ns = ns'" "ts = ts'" by simp_all
  from goNames_entry [OF g xi(1,2) yi(1,2) ik] have i: "pi = pi'" "ni = ni'" "ti = ti'" by simp_all
  from i(3) xi(3) yi(3) have "t = t'" by simp
  with s i xs(4) ys(4) xi(4) yi(4) have "fst x = fst y" "snd x = snd y" by simp_all
  then show "x = y" by (rule prod_eqI)
qed

section \<open>Entity extraction: what the visit keeps and what it adds\<close>

lemma FullName_declFuncNode:
  "FullName (declFuncNode c p name fo) =
     (case fo_Recv fo of
        None \<Rightarrow> p @ ''.'' @ name
      | Some (Named q objName) \<Rightarrow> p @ ''.'' @ objName @ ''.'' @ name
      | Some (Pointer (Named q objName)) \<Rightarrow> p @ ''.'' @ objName @ ''.'' @ name
      | Some _ \<Rightarrow> p @ ''.'' @ name)"
  by (simp add: declFuncNode_def Let_def split: option.splits gotype.splits)

lemma FullName_methodFuncNode:
  "FullName (methodFuncNode c p name m) = p @ ''.'' @ name @ ''.'' @ fo_Name m"
  by (simp add: methodFuncNode_def)

lemma putFunc_frame [simp]:
  "RootModule (putFunc fn c) = RootModule c"
  "Packages (putFunc fn c) = Packages c"
  "Calls (putFunc fn c) = Calls c"
  "Implements (putFunc fn c) = Implements c"
  "Interfaces (putFunc fn c) = Interfaces c"
  by (simp_all add: putFunc_def)

lemma putFunc_Funcs: "Funcs (putFunc fn c) = (Funcs c)(FullName fn \<mapsto> fn)"
  by (simp add: putFunc_def)

lemma scanObject_frame [simp]:
  "RootModule (scanObject p e c) = RootModule c"
  "Calls (scanObject p e c) = Calls c"
  "Implements (scanObject p e c) = Implements c"
  by (cases e; simp add: scanObject_def split: Object.splits Underlying.splits)+

lemma scanObject_Funcs_keep:
  "Funcs c k \<noteq> None \<Longrightarrow> Funcs (scanObject p e c) k \<noteq> None"
  by (cases e) (simp add: scanObject_def putFunc_Funcs split: Object.splits Underlying.splits)

lemma scanObject_Interfaces_keep:
  "Interfaces c k \<noteq> None \<Longrightarrow> Interfaces (scanObject p e c) k \<noteq> None"
  by (cases e) (simp add: scanObject_def split: Object.splits Underlying.splits)

lemma scanObject_Func:
  "Funcs (scanObject p (name, Func fo) c) (FullName (declFuncNode c' p name fo)) \<noteq> None"
  by (simp add: scanObject_def putFunc_Funcs FullName_declFuncNode)

lemma scanObject_Interface:
  "tn_Underlying tn = UInterface t \<Longrightarrow>
   Interfaces (scanObject p (name, TypeName tn) c) (p @ ''.'' @ name) \<noteq> None"
  by (simp add: scanObject_def)

lemma fold_putFunc_frame [simp]:
  "RootModule (fold (\<lambda>m c'. putFunc (g c' m) c') ms c) = RootModule c"
  "Calls (fold (\<lambda>m c'. putFunc (g c' m) c') ms c) = Calls c"
  "Implements (fold (\<lambda>m c'. putFunc (g c' m) c') ms c) = Implements c"
  "Interfaces (fold (\<lambda>m c'. putFunc (g c' m) c') ms c) = Interfaces c"
  by (induction ms arbitrary: c; simp)+

lemma fold_putFunc_keep:
  "Funcs c k \<noteq> None \<Longrightarrow> Funcs (fold (\<lambda>m c'. putFunc (g c' m) c') ms c) k \<noteq> None"
  by (induction ms arbitrary: c) (simp_all add: putFunc_Funcs)

lemma scanMethods_frame [simp]:
  "RootModule (scanMethods p e c) = RootModule c"
  "Calls (scanMethods p e c) = Calls c"
  "Implements (scanMethods p e c) = Implements c"
  "Interfaces (scanMethods p e c) = Interfaces c"
  by (cases e; simp add: scanMethods_def split: Object.splits gotype.splits)+

lemma scanMethods_Funcs_keep:
  "Funcs c k \<noteq> None \<Longrightarrow> Funcs (scanMethods p e c) k \<noteq> None"
  by (cases e)
     (simp add: scanMethods_def fold_putFunc_keep del: not_None_eq
        split: Object.splits gotype.splits)

lemma scanMethods_method:
  assumes "tn_Type tn = Named q x" and "m \<in> set (tn_Methods tn)"
  shows "Funcs (scanMethods p (name, TypeName tn) c) (p @ ''.'' @ name @ ''.'' @ fo_Name m) \<noteq> None"
proof -
  have "Funcs (fold (\<lambda>m c'. putFunc (methodFuncNode c' p name m) c') (tn_Methods tn) c)
          (p @ ''.'' @ name @ ''.'' @ fo_Name m) \<noteq> None"
  proof (rule fold_reach [where Q = "\<lambda>s. Funcs s (p @ ''.'' @ name @ ''.'' @ fo_Name m) \<noteq> None",
        OF assms(2)])
    fix s :: Collector
    show "Funcs (putFunc (methodFuncNode s p name m) s) (p @ ''.'' @ name @ ''.'' @ fo_Name m) \<noteq> None"
      by (simp add: putFunc_Funcs FullName_methodFuncNode)
  next
    fix y :: FuncObj and s :: Collector
    assume "Funcs s (p @ ''.'' @ name @ ''.'' @ fo_Name m) \<noteq> None"
    then show "Funcs (putFunc (methodFuncNode s p name y) s)
                 (p @ ''.'' @ name @ ''.'' @ fo_Name m) \<noteq> None"
      by (simp add: putFunc_Funcs)
  qed
  then show ?thesis using assms(1) by (simp add: scanMethods_def del: not_None_eq)
qed

lemma fold_scanObject_frame [simp]:
  "RootModule (fold (scanObject p) es c) = RootModule c"
  "Calls (fold (scanObject p) es c) = Calls c"
  "Implements (fold (scanObject p) es c) = Implements c"
  by (induction es arbitrary: c; simp)+

lemma fold_scanMethods_frame [simp]:
  "RootModule (fold (scanMethods p) es c) = RootModule c"
  "Calls (fold (scanMethods p) es c) = Calls c"
  "Implements (fold (scanMethods p) es c) = Implements c"
  "Interfaces (fold (scanMethods p) es c) = Interfaces c"
  by (induction es arbitrary: c; simp)+

lemma fold_scanObject_Funcs_keep:
  "Funcs c k \<noteq> None \<Longrightarrow> Funcs (fold (scanObject p) es c) k \<noteq> None"
  by (rule fold_invariant [where P = "\<lambda>s. Funcs s k \<noteq> None"]) (rule scanObject_Funcs_keep)

lemma fold_scanObject_Interfaces_keep:
  "Interfaces c k \<noteq> None \<Longrightarrow> Interfaces (fold (scanObject p) es c) k \<noteq> None"
  by (rule fold_invariant [where P = "\<lambda>s. Interfaces s k \<noteq> None"])
     (rule scanObject_Interfaces_keep)

lemma fold_scanMethods_Funcs_keep:
  "Funcs c k \<noteq> None \<Longrightarrow> Funcs (fold (scanMethods p) es c) k \<noteq> None"
  by (rule fold_invariant [where P = "\<lambda>s. Funcs s k \<noteq> None"]) (rule scanMethods_Funcs_keep)

lemma visitTypes_frame [simp]:
  "RootModule (visitTypes pkg c) = RootModule c"
  "Calls (visitTypes pkg c) = Calls c"
  "Implements (visitTypes pkg c) = Implements c"
  by (simp_all add: visitTypes_def Let_def)

lemma visitTypes_Funcs_keep:
  "Funcs c k \<noteq> None \<Longrightarrow> Funcs (visitTypes pkg c) k \<noteq> None"
proof (cases "isProjectPackage c (PkgPath pkg)")
  case False
  assume "Funcs c k \<noteq> None"
  with False show ?thesis by (simp add: visitTypes_def del: not_None_eq)
next
  case True
  assume "Funcs c k \<noteq> None"
  then have "Funcs (c\<lparr>Packages := (Packages c)(PkgPath pkg \<mapsto>
     \<lparr>ImportPath = PkgPath pkg, pn_Name = PkgName pkg, Dir = relPath c (PkgPath pkg)\<rparr>)\<rparr>) k
       \<noteq> None" by simp
  then have "Funcs (fold (scanObject (PkgPath pkg)) (Scope pkg)
     (c\<lparr>Packages := (Packages c)(PkgPath pkg \<mapsto>
     \<lparr>ImportPath = PkgPath pkg, pn_Name = PkgName pkg, Dir = relPath c (PkgPath pkg)\<rparr>)\<rparr>)) k
       \<noteq> None" by (rule fold_scanObject_Funcs_keep)
  then have "Funcs (fold (scanMethods (PkgPath pkg)) (Scope pkg)
     (fold (scanObject (PkgPath pkg)) (Scope pkg)
     (c\<lparr>Packages := (Packages c)(PkgPath pkg \<mapsto>
     \<lparr>ImportPath = PkgPath pkg, pn_Name = PkgName pkg, Dir = relPath c (PkgPath pkg)\<rparr>)\<rparr>))) k
       \<noteq> None" by (rule fold_scanMethods_Funcs_keep)
  then show ?thesis using True by (simp add: visitTypes_def Let_def del: not_None_eq)
qed

lemma visitTypes_Interfaces_keep:
  "Interfaces c k \<noteq> None \<Longrightarrow> Interfaces (visitTypes pkg c) k \<noteq> None"
proof (cases "isProjectPackage c (PkgPath pkg)")
  case False
  assume "Interfaces c k \<noteq> None"
  with False show ?thesis by (simp add: visitTypes_def del: not_None_eq)
next
  case True
  assume "Interfaces c k \<noteq> None"
  then have "Interfaces (c\<lparr>Packages := (Packages c)(PkgPath pkg \<mapsto>
     \<lparr>ImportPath = PkgPath pkg, pn_Name = PkgName pkg, Dir = relPath c (PkgPath pkg)\<rparr>)\<rparr>) k
       \<noteq> None" by simp
  then have "Interfaces (fold (scanObject (PkgPath pkg)) (Scope pkg)
     (c\<lparr>Packages := (Packages c)(PkgPath pkg \<mapsto>
     \<lparr>ImportPath = PkgPath pkg, pn_Name = PkgName pkg, Dir = relPath c (PkgPath pkg)\<rparr>)\<rparr>)) k
       \<noteq> None" by (rule fold_scanObject_Interfaces_keep)
  then show ?thesis using True by (simp add: visitTypes_def Let_def del: not_None_eq)
qed

lemma visitTypes_Func:
  assumes "isProjectPackage c (PkgPath pkg)" and "(name, Func fo) \<in> set (Scope pkg)"
  shows "Funcs (visitTypes pkg c) (FullName (declFuncNode c' (PkgPath pkg) name fo)) \<noteq> None"
proof -
  define k where "k = FullName (declFuncNode c' (PkgPath pkg) name fo)"
  define c1 where "c1 = c\<lparr>Packages := (Packages c)(PkgPath pkg \<mapsto>
     \<lparr>ImportPath = PkgPath pkg, pn_Name = PkgName pkg, Dir = relPath c (PkgPath pkg)\<rparr>)\<rparr>"
  have "Funcs (fold (scanObject (PkgPath pkg)) (Scope pkg) c1) k \<noteq> None"
  proof (rule fold_reach [where Q = "\<lambda>s. Funcs s k \<noteq> None", OF assms(2)])
    fix s :: Collector
    show "Funcs (scanObject (PkgPath pkg) (name, Func fo) s) k \<noteq> None"
      unfolding k_def by (rule scanObject_Func)
  next
    fix y :: "string \<times> Object" and s :: Collector
    assume "Funcs s k \<noteq> None"
    then show "Funcs (scanObject (PkgPath pkg) y s) k \<noteq> None" by (rule scanObject_Funcs_keep)
  qed
  then have "Funcs (fold (scanMethods (PkgPath pkg)) (Scope pkg)
               (fold (scanObject (PkgPath pkg)) (Scope pkg) c1)) k \<noteq> None"
    by (rule fold_scanMethods_Funcs_keep)
  then show ?thesis using assms(1) by (simp add: visitTypes_def Let_def c1_def k_def del: not_None_eq)
qed

lemma visitTypes_method:
  assumes "isProjectPackage c (PkgPath pkg)" and "(name, TypeName tn) \<in> set (Scope pkg)"
    and "tn_Type tn = Named q x" and "m \<in> set (tn_Methods tn)"
  shows "Funcs (visitTypes pkg c) (PkgPath pkg @ ''.'' @ name @ ''.'' @ fo_Name m) \<noteq> None"
proof -
  define k where "k = PkgPath pkg @ ''.'' @ name @ ''.'' @ fo_Name m"
  define c2 where "c2 = fold (scanObject (PkgPath pkg)) (Scope pkg)
     (c\<lparr>Packages := (Packages c)(PkgPath pkg \<mapsto>
     \<lparr>ImportPath = PkgPath pkg, pn_Name = PkgName pkg, Dir = relPath c (PkgPath pkg)\<rparr>)\<rparr>)"
  have "Funcs (fold (scanMethods (PkgPath pkg)) (Scope pkg) c2) k \<noteq> None"
  proof (rule fold_reach [where Q = "\<lambda>s. Funcs s k \<noteq> None", OF assms(2)])
    fix s :: Collector
    show "Funcs (scanMethods (PkgPath pkg) (name, TypeName tn) s) k \<noteq> None"
      unfolding k_def by (rule scanMethods_method [OF assms(3,4)])
  next
    fix y :: "string \<times> Object" and s :: Collector
    assume "Funcs s k \<noteq> None"
    then show "Funcs (scanMethods (PkgPath pkg) y s) k \<noteq> None" by (rule scanMethods_Funcs_keep)
  qed
  then show ?thesis using assms(1) by (simp add: visitTypes_def Let_def c2_def k_def del: not_None_eq)
qed

lemma visitTypes_Interface:
  assumes "isProjectPackage c (PkgPath pkg)" and "(name, TypeName tn) \<in> set (Scope pkg)"
    and "tn_Underlying tn = UInterface t"
  shows "Interfaces (visitTypes pkg c) (PkgPath pkg @ ''.'' @ name) \<noteq> None"
proof -
  define k where "k = PkgPath pkg @ ''.'' @ name"
  define c1 where "c1 = c\<lparr>Packages := (Packages c)(PkgPath pkg \<mapsto>
     \<lparr>ImportPath = PkgPath pkg, pn_Name = PkgName pkg, Dir = relPath c (PkgPath pkg)\<rparr>)\<rparr>"
  have "Interfaces (fold (scanObject (PkgPath pkg)) (Scope pkg) c1) k \<noteq> None"
  proof (rule fold_reach [where Q = "\<lambda>s. Interfaces s k \<noteq> None", OF assms(2)])
    fix s :: Collector
    show "Interfaces (scanObject (PkgPath pkg) (name, TypeName tn) s) k \<noteq> None"
      unfolding k_def by (rule scanObject_Interface [OF assms(3)])
  next
    fix y :: "string \<times> Object" and s :: Collector
    assume "Interfaces s k \<noteq> None"
    then show "Interfaces (scanObject (PkgPath pkg) y s) k \<noteq> None"
      by (rule scanObject_Interfaces_keep)
  qed
  then show ?thesis using assms(1) by (simp add: visitTypes_def Let_def c1_def k_def del: not_None_eq)
qed

lemma CollectTypes_frame [simp]:
  "RootModule (CollectTypes c pkgs) = RootModule c"
  "Calls (CollectTypes c pkgs) = Calls c"
  "Implements (CollectTypes c pkgs) = Implements c"
  unfolding CollectTypes_def by (induction pkgs arbitrary: c; simp)+

lemma isProjectPackage_fold_visitTypes:
  "isProjectPackage (fold visitTypes pkgs c) p = isProjectPackage c p"
  by (rule isProjectPackage_cong) (simp add: CollectTypes_frame(1) [unfolded CollectTypes_def])

text \<open>A key that one visited in-project package adds is a key of the result.\<close>

lemma CollectTypes_reach:
  assumes "pkg \<in> set pkgs" and "isProjectPackage c (PkgPath pkg)"
    and add: "\<And>s. isProjectPackage s (PkgPath pkg) \<Longrightarrow> sel (visitTypes pkg s) k \<noteq> None"
    and keep: "\<And>y s. sel s k \<noteq> None \<Longrightarrow> sel (visitTypes y s) k \<noteq> None"
  shows "sel (CollectTypes c pkgs) k \<noteq> None"
proof -
  have "sel (fold visitTypes pkgs c) k \<noteq> None"
    using assms(1,2)
  proof (induction pkgs arbitrary: c)
    case Nil
    then show ?case by simp
  next
    case (Cons y ys)
    have p: "isProjectPackage (visitTypes y c) (PkgPath pkg)"
      using Cons.prems(2) isProjectPackage_cong [of "visitTypes y c" c] by simp
    show ?case
    proof (cases "pkg \<in> set ys")
      case True
      from Cons.IH [OF True p] show ?thesis by simp
    next
      case False
      with Cons.prems have y: "y = pkg" by simp
      have "sel (visitTypes y c) k \<noteq> None"
        unfolding y using Cons.prems(2) by (rule add)
      then have "sel (fold visitTypes ys (visitTypes y c)) k \<noteq> None"
        by (rule fold_invariant [where P = "\<lambda>s. sel s k \<noteq> None", rotated]) (rule keep)
      then show ?thesis by simp
    qed
  qed
  then show ?thesis by (simp add: CollectTypes_def)
qed

section \<open>What each stage leaves unchanged\<close>

lemma register_frame [simp]:
  "Implements (register f p c) = Implements c"
  "Packages (register f p c) = Packages c"
  by (simp_all add: register_def)

lemma Implements_visitEdge [simp]: "Implements (visitEdge e c) = Implements c"
proof (cases "emits c e")
  case False
  then show ?thesis by (simp add: visitEdge_skip)
next
  case True
  from True obtain a b where ab: "fn_Pkg (Caller e) = Some a" "fn_Pkg (Callee e) = Some b"
    using emits_Pkg by blast
  show ?thesis by (simp add: visitEdge_emits [OF True ab])
qed

lemma Implements_CollectCallGraph [simp]: "Implements (CollectCallGraph c cg) = Implements c"
  unfolding CollectCallGraph_def by (induction cg arbitrary: c) simp_all

lemma CollectImplements_frame [simp]:
  "RootModule (CollectImplementsFromPackages impl c pkgs) = RootModule c"
  "Packages (CollectImplementsFromPackages impl c pkgs) = Packages c"
  "Calls (CollectImplementsFromPackages impl c pkgs) = Calls c"
  "Funcs (CollectImplementsFromPackages impl c pkgs) = Funcs c"
  by (simp_all add: CollectImplementsFromPackages_def Let_def)

lemma NewCollector_fields [simp]:
  "RootModule (NewCollector m) = m"
  "Packages (NewCollector m) = Map.empty"
  "Calls (NewCollector m) = []"
  "Implements (NewCollector m) = []"
  "Funcs (NewCollector m) = Map.empty"
  by (simp_all add: NewCollector_def)

lemma Calls_runPipeline:
  "Calls (runPipeline impl m pkgs cg) =
     map (mkCallEdge (NewCollector m)) (filter (emits (NewCollector m)) cg)"
proof -
  have r: "RootModule (CollectTypes (NewCollector m) pkgs) = RootModule (NewCollector m)"
    by simp
  have "mkCallEdge (CollectTypes (NewCollector m) pkgs) = mkCallEdge (NewCollector m)"
    using mkCallEdge_cong [OF r] by (rule ext)
  moreover have "emits (CollectTypes (NewCollector m) pkgs) = emits (NewCollector m)"
    using emits_cong [OF r] by (rule ext)
  ultimately show ?thesis
    by (simp add: runPipeline_def Calls_CollectCallGraph)
qed

lemma Implements_runPipeline_distinct:
  "distinct (map implKey (Implements (runPipeline impl m pkgs cg)))"
  unfolding runPipeline_def CollectImplements_eq
  by (rule fold_checkPair_distinct) simp_all

section \<open>Every function node is stored under its full name\<close>

lemma keyed_putFunc: "keyed c \<Longrightarrow> keyed (putFunc fn c)"
  by (simp add: keyed_def putFunc_Funcs)

lemma keyed_scanObject: "keyed c \<Longrightarrow> keyed (scanObject p e c)"
proof (cases e)
  case (Pair name obj)
  assume k: "keyed c"
  show ?thesis
  proof (cases obj)
    case (TypeName tn)
    then show ?thesis using k Pair
      by (cases "tn_Underlying tn") (simp_all add: scanObject_def keyed_def)
  next
    case (Func fo)
    then show ?thesis using k Pair by (simp add: scanObject_def keyed_putFunc)
  next
    case (OtherObject pos)
    then show ?thesis using k Pair by (simp add: scanObject_def)
  qed
qed

lemma keyed_scanMethods: "keyed c \<Longrightarrow> keyed (scanMethods p e c)"
proof (cases e)
  case (Pair name obj)
  assume k: "keyed c"
  have f: "\<And>ms. keyed (fold (\<lambda>m c'. putFunc (methodFuncNode c' p name m) c') ms c)"
    by (rule fold_invariant [where P = keyed]) (rule keyed_putFunc, assumption, rule k)
  show ?thesis
  proof (cases obj)
    case (TypeName tn)
    then show ?thesis using k f Pair
      by (cases "tn_Type tn") (simp_all add: scanMethods_def)
  next
    case (Func fo)
    then show ?thesis using k Pair by (simp add: scanMethods_def)
  next
    case (OtherObject pos)
    then show ?thesis using k Pair by (simp add: scanMethods_def)
  qed
qed

lemma keyed_visitTypes: "keyed c \<Longrightarrow> keyed (visitTypes pkg c)"
proof (cases "isProjectPackage c (PkgPath pkg)")
  case False
  assume "keyed c"
  with False show ?thesis by (simp add: visitTypes_def)
next
  case True
  assume "keyed c"
  then have "keyed (c\<lparr>Packages := (Packages c)(PkgPath pkg \<mapsto>
     \<lparr>ImportPath = PkgPath pkg, pn_Name = PkgName pkg, Dir = relPath c (PkgPath pkg)\<rparr>)\<rparr>)"
    by (simp add: keyed_def)
  then have "keyed (fold (scanObject (PkgPath pkg)) (Scope pkg)
     (c\<lparr>Packages := (Packages c)(PkgPath pkg \<mapsto>
     \<lparr>ImportPath = PkgPath pkg, pn_Name = PkgName pkg, Dir = relPath c (PkgPath pkg)\<rparr>)\<rparr>))"
    by (rule fold_invariant [where P = keyed, rotated]) (rule keyed_scanObject)
  then have "keyed (fold (scanMethods (PkgPath pkg)) (Scope pkg)
     (fold (scanObject (PkgPath pkg)) (Scope pkg)
     (c\<lparr>Packages := (Packages c)(PkgPath pkg \<mapsto>
     \<lparr>ImportPath = PkgPath pkg, pn_Name = PkgName pkg, Dir = relPath c (PkgPath pkg)\<rparr>)\<rparr>)))"
    by (rule fold_invariant [where P = keyed, rotated]) (rule keyed_scanMethods)
  then show ?thesis using True by (simp add: visitTypes_def Let_def)
qed

lemma keyed_CollectTypes:
  assumes "keyed c"
  shows "keyed (CollectTypes c pkgs)"
  unfolding CollectTypes_def using assms
  by (rule fold_invariant [where P = keyed, rotated]) (rule keyed_visitTypes)

lemma keyed_register: "keyed c \<Longrightarrow> keyed (register f p c)"
  by (simp add: keyed_def register_def minimalFuncNode_def)

lemma keyed_visitEdge: "keyed c \<Longrightarrow> keyed (visitEdge e c)"
proof (cases "emits c e")
  case False
  assume "keyed c"
  with False show ?thesis by (simp add: visitEdge_skip)
next
  case True
  assume "keyed c"
  then have k: "keyed (c\<lparr>Calls := Calls c @ [mkCallEdge c e]\<rparr>)" by (simp add: keyed_def)
  from True obtain a b where ab: "fn_Pkg (Caller e) = Some a" "fn_Pkg (Callee e) = Some b"
    using emits_Pkg by blast
  show ?thesis
    unfolding visitEdge_emits [OF True ab] by (intro keyed_register k)
qed

lemma keyed_CollectCallGraph:
  assumes "keyed c"
  shows "keyed (CollectCallGraph c cg)"
  unfolding CollectCallGraph_def using assms
  by (rule fold_invariant [where P = keyed, rotated]) (rule keyed_visitEdge)

lemma keyed_runPipeline: "keyed (runPipeline impl m pkgs cg)"
proof -
  have "keyed (NewCollector m)" by (simp add: keyed_def)
  then have "keyed (CollectCallGraph (CollectTypes (NewCollector m) pkgs) cg)"
    by (intro keyed_CollectCallGraph keyed_CollectTypes)
  then show ?thesis by (simp add: runPipeline_def keyed_def)
qed

lemmas ex_pkg_defs = ex_pkg_def ex_Empty_tn_def ex_Handler_tn_def ex_Server_tn_def
  ex_Handle_obj_def ex_main_obj_def ex_Server_Handle_def ex_impl_def

lemmas impl_eval = CollectImplementsFromPackages_def checkAll_def checkPair_def
  gatherPackage_def gatherObject_def gathered_def isProjectPackage_def HasPrefix_def
  NewCollector_def Let_def

text \<open>
  C3, as the claim states it: no two call edges handed to the sink have the same
  (caller, callee, site) triple. The calls collection is appended to once per call-graph
  edge and never deduplicated: two calls of \<open>helper\<close> on one line of \<open>main\<close> give two
  records with the same triple.
\<close>

theorem pipeline_calls_duplicate_counterexample:
  "\<not> distinct (map callKey (Calls (runPipeline ex_impl ''app'' [ex_pkg]
      [ex_static ex_main ex_helper 5 2, ex_static ex_main ex_helper 5 12])))"
  by (simp add: Calls_runPipeline emits_def callKey_def cg_eval ex_defs)

text \<open>
  C3, amended: when the three stages have run, no two implements edges have the same
  (struct, interface) pair, and every function node is stored in the function map under
  its own full name and every package node in the package map under its own import path
  (the node collections are maps, one record per key); the calls
  collection holds one record per call-graph edge that passes the guards, in visiting
  order, without deduplication.
\<close>

theorem pipeline_collections_keys:
  "distinct (map implKey (Implements (runPipeline impl m pkgs cg))) \<and>
   (\<forall>k n. Funcs (runPipeline impl m pkgs cg) k = Some n \<longrightarrow> FullName n = k) \<and>
   (\<forall>k n. Packages (runPipeline impl m pkgs cg) k = Some n \<longrightarrow> ImportPath n = k) \<and>
   Calls (runPipeline impl m pkgs cg) =
     map (mkCallEdge (NewCollector m)) (filter (emits (NewCollector m)) cg)"
  using Implements_runPipeline_distinct [of impl m pkgs cg]
    keyed_runPipeline [of impl m pkgs cg] Calls_runPipeline [of impl m pkgs cg]
  by (simp add: keyed_def)

theorem pipeline_collections_keys_witness:
  "Implements (runPipeline ex_impl ''app'' [ex_pkg] [ex_invoke ex_main ex_Server_Handle 7 2]) =
     [\<lparr>Struct = ''app.Server'', Interface = ''app.Handler''\<rparr>] \<and>
   distinct (map implKey
     (Implements (runPipeline ex_impl ''app'' [ex_pkg] [ex_invoke ex_main ex_Server_Handle 7 2]))) \<and>
   Funcs (runPipeline ex_impl ''app'' [ex_pkg] [ex_invoke ex_main ex_Server_Handle 7 2])
     ''app.main'' \<noteq> None \<and>
   Calls (runPipeline ex_impl ''app'' [ex_pkg] [ex_invoke ex_main ex_Server_Handle 7 2]) =
     [\<lparr>CallerFullName = ''app.main'', CalleeFullName = ''app.Server.Handle'',
       IsDynamic = True, Site = ''main.go:7''\<rparr>]"
proof -
  note t = pipeline_collections_keys
    [of ex_impl "''app''" "[ex_pkg]" "[ex_invoke ex_main ex_Server_Handle 7 2]"]
  have i: "Implements (runPipeline ex_impl ''app'' [ex_pkg]
             [ex_invoke ex_main ex_Server_Handle 7 2]) =
           [\<lparr>Struct = ''app.Server'', Interface = ''app.Handler''\<rparr>]"
    by (simp add: runPipeline_def impl_eval ex_pkg_defs)
  have "Funcs (CollectTypes (NewCollector ''app'') [ex_pkg]) ''app.main'' \<noteq> None"
    by (simp add: CollectTypes_def visitTypes_def scanObject_def scanMethods_def putFunc_def
          declFuncNode_def methodFuncNode_def isProjectPackage_def HasPrefix_def
          NewCollector_def Let_def ex_pkg_defs)
  then obtain n where "Funcs (CollectTypes (NewCollector ''app'') [ex_pkg]) ''app.main'' = Some n"
    by blast
  then have f: "Funcs (runPipeline ex_impl ''app'' [ex_pkg]
             [ex_invoke ex_main ex_Server_Handle 7 2]) ''app.main'' \<noteq> None"
    by (simp add: runPipeline_def Funcs_CollectCallGraph_keep)
  have c: "map (mkCallEdge (NewCollector ''app'')) (filter (emits (NewCollector ''app''))
             [ex_invoke ex_main ex_Server_Handle 7 2]) =
     [\<lparr>CallerFullName = ''app.main'', CalleeFullName = ''app.Server.Handle'',
       IsDynamic = True, Site = ''main.go:7''\<rparr>]"
    by (simp add: emits_def cg_eval ex_defs ex_pkg_defs)
  from t i f c show ?thesis by simp
qed

text \<open>
  C5. For a struct and an interface with at least one method, both declared in visited
  in-project packages, the resolver emits an edge for the pair exactly when the struct
  type or the pointer to it implements the interface, and then exactly one edge: the
  number of edges with the keys of the pair is one if either check succeeds and zero
  otherwise. The program follows the naming rules of Go, so that the keys identify the
  pair: package paths are distinct, names are distinct in a scope and contain no dot, and
  neither contains \<open>>\<close>.
\<close>

theorem CollectImplements_one_edge_per_satisfying_pair:
  assumes "Implements c = []"
    and "pkgS \<in> set pkgs" and "isProjectPackage c (PkgPath pkgS)"
    and "(sname, TypeName stn) \<in> set (Scope pkgS)" and "tn_Underlying stn = UStruct nf"
    and "pkgI \<in> set pkgs" and "isProjectPackage c (PkgPath pkgI)"
    and "(iname, TypeName itn) \<in> set (Scope pkgI)" and "tn_Underlying itn = UInterface t"
    and "NumMethods t > 0"
    and "goNames pkgs"
  shows "length (filter (\<lambda>x. Struct x = PkgPath pkgS @ ''.'' @ sname \<and>
                              Interface x = PkgPath pkgI @ ''.'' @ iname)
           (Implements (CollectImplementsFromPackages impl c pkgs))) =
         (if impl (tn_Type stn) t \<or> impl (Pointer (tn_Type stn)) t then 1 else 0)"
proof -
  define cn where "cn = \<lparr>ce_key = PkgPath pkgS @ ''.'' @ sname, ce_typ = tn_Type stn,
    ce_name = sname, ce_pkg = PkgPath pkgS\<rparr>"
  define i0 where "i0 = \<lparr>ie_key = PkgPath pkgI @ ''.'' @ iname, ie_typ = t,
    ie_name = iname, ie_pkg = PkgPath pkgI\<rparr>"
  define ps where "ps = List.product (snd (gathered c pkgs)) (fst (gathered c pkgs))"
  define st' where "st' = fold (\<lambda>p. checkPair impl (fst p) (snd p)) ps (\<lambda>_. False, [])"
  have cn: "cn \<in> set (snd (gathered c pkgs))"
    unfolding cn_def by (rule gathered_concrete [OF assms(2,3,4,5)])
  have i0: "i0 \<in> set (fst (gathered c pkgs))"
    unfolding i0_def by (rule gathered_iface [OF assms(6,7,8,9,10)])
  have mem: "(cn, i0) \<in> set ps" using cn i0 by (simp add: ps_def)
  have inj: "\<And>p. p \<in> set ps \<Longrightarrow> edgeKeyOf p = edgeKeyOf (cn, i0) \<Longrightarrow> p = (cn, i0)"
  proof -
    fix p assume a: "p \<in> set ps" and e: "edgeKeyOf p = edgeKeyOf (cn, i0)"
    have "p \<in> set (snd (gathered c pkgs)) \<times> set (fst (gathered c pkgs))"
      using a by (simp add: ps_def)
    moreover have "(cn, i0) \<in> set (snd (gathered c pkgs)) \<times> set (fst (gathered c pkgs))"
      using mem by (simp add: ps_def)
    ultimately show "p = (cn, i0)"
      by (rule inj_onD [OF goNames_inj_on_edgeKeyOf [OF assms(11)] e])
  qed
  have "length (filter (\<lambda>x. implKey x = implKey (edgeOf (cn, i0))) (snd st')) =
        (if satisfies impl (cn, i0) then 1 else 0)"
    using fold_checkPair_count [OF inj, of ps impl "(\<lambda>_. False, [])"] mem
    by (simp add: Let_def st'_def)
  moreover have "Implements (CollectImplementsFromPackages impl c pkgs) = snd st'"
    by (simp add: CollectImplements_eq assms(1) st'_def ps_def)
  moreover have "(\<lambda>x. implKey x = implKey (edgeOf (cn, i0))) =
    (\<lambda>x. Struct x = PkgPath pkgS @ ''.'' @ sname \<and> Interface x = PkgPath pkgI @ ''.'' @ iname)"
    by (rule ext) (simp add: implKey_def edgeOf_def cn_def i0_def)
  moreover have "satisfies impl (cn, i0) =
    (impl (tn_Type stn) t \<or> impl (Pointer (tn_Type stn)) t)"
    by (simp add: satisfies_def cn_def i0_def)
  ultimately show ?thesis by simp
qed

theorem CollectImplements_one_edge_per_satisfying_pair_witness:
  "goNames [ex_pkg] \<and> ex_impl (Pointer (tn_Type ex_Server_tn)) (InterfaceType [''Handle'']) \<and>
   \<not> ex_impl (tn_Type ex_Server_tn) (InterfaceType [''Handle'']) \<and>
   length (filter (\<lambda>x. Struct x = ''app.Server'' \<and> Interface x = ''app.Handler'')
     (Implements (CollectImplementsFromPackages ex_impl (NewCollector ''app'') [ex_pkg]))) = 1"
proof -
  have inj: "goNames [ex_pkg]"
    by (simp add: goNames_def ex_pkg_def)
  have p: "isProjectPackage (NewCollector ''app'') (PkgPath ex_pkg)"
    by (simp add: isProjectPackage_def HasPrefix_def ex_pkg_def)
  have "length (filter (\<lambda>x. Struct x = PkgPath ex_pkg @ ''.'' @ ''Server'' \<and>
                              Interface x = PkgPath ex_pkg @ ''.'' @ ''Handler'')
           (Implements (CollectImplementsFromPackages ex_impl (NewCollector ''app'') [ex_pkg]))) =
         (if ex_impl (tn_Type ex_Server_tn) (InterfaceType [''Handle'']) \<or>
             ex_impl (Pointer (tn_Type ex_Server_tn)) (InterfaceType [''Handle''])
          then 1 else 0)"
    by (rule CollectImplements_one_edge_per_satisfying_pair
          [where pkgS = ex_pkg and pkgI = ex_pkg and stn = ex_Server_tn and itn = ex_Handler_tn
             and nf = 0, OF _ _ p _ _ _ p _ _ _ inj])
       (simp_all add: ex_pkg_defs)
  then show ?thesis using inj by (simp add: ex_pkg_defs)
qed

text \<open>
  C6. Every implements edge appended by the resolver has as its target an interface that
  is declared in a visited in-project package with at least one method; and an interface
  declared in a visited in-project package is kept as an interface node by the entity
  extraction whatever its number of methods, zero included.
\<close>

theorem CollectImplements_no_empty_interface:
  "(Implements c = [] \<and> x \<in> set (Implements (CollectImplementsFromPackages impl c pkgs)) \<longrightarrow>
      (\<exists>pkg name tn t. pkg \<in> set pkgs \<and> isProjectPackage c (PkgPath pkg) \<and>
         (name, TypeName tn) \<in> set (Scope pkg) \<and> tn_Underlying tn = UInterface t \<and>
         Interface x = PkgPath pkg @ ''.'' @ name \<and> NumMethods t > 0)) \<and>
   (pkg' \<in> set pkgs \<and> isProjectPackage c (PkgPath pkg') \<and>
    (name', TypeName tn') \<in> set (Scope pkg') \<and> tn_Underlying tn' = UInterface t' \<longrightarrow>
      Interfaces (CollectTypes c pkgs) (PkgPath pkg' @ ''.'' @ name') \<noteq> None)"
proof (intro conjI impI)
  assume a: "Implements c = [] \<and> x \<in> set (Implements (CollectImplementsFromPackages impl c pkgs))"
  then have e: "Implements c = []"
    and m: "x \<in> set (Implements (CollectImplementsFromPackages impl c pkgs))" by simp_all
  from m have "x \<in> set (snd (fold (\<lambda>p. checkPair impl (fst p) (snd p))
            (List.product (snd (gathered c pkgs)) (fst (gathered c pkgs)))
            (\<lambda>_. False, [])))"
    by (simp add: CollectImplements_eq e)
  from fold_checkPair_sound [OF this]
  obtain p where p: "p \<in> set (List.product (snd (gathered c pkgs)) (fst (gathered c pkgs)))"
    "x = edgeOf p" by auto
  from p(1) have "snd p \<in> set (fst (gathered c pkgs))" by auto
  then have "ifaceOrigin c pkgs (snd p)" by (rule gathered_iface_origin)
  then obtain pkg name tn t where o: "pkg \<in> set pkgs" "isProjectPackage c (PkgPath pkg)"
    "(name, TypeName tn) \<in> set (Scope pkg)" "tn_Underlying tn = UInterface t"
    "NumMethods t > 0" "ie_key (snd p) = PkgPath pkg @ ''.'' @ name"
    unfolding ifaceOrigin_def by auto
  have "Interface x = PkgPath pkg @ ''.'' @ name" using p(2) o(6) by (simp add: edgeOf_def)
  with o show "\<exists>pkg name tn t. pkg \<in> set pkgs \<and> isProjectPackage c (PkgPath pkg) \<and>
         (name, TypeName tn) \<in> set (Scope pkg) \<and> tn_Underlying tn = UInterface t \<and>
         Interface x = PkgPath pkg @ ''.'' @ name \<and> NumMethods t > 0" by blast
next
  assume b: "pkg' \<in> set pkgs \<and> isProjectPackage c (PkgPath pkg') \<and>
    (name', TypeName tn') \<in> set (Scope pkg') \<and> tn_Underlying tn' = UInterface t'"
  show "Interfaces (CollectTypes c pkgs) (PkgPath pkg' @ ''.'' @ name') \<noteq> None"
  proof (rule CollectTypes_reach [where sel = Interfaces and pkg = pkg'])
    show "pkg' \<in> set pkgs" using b by simp
    show "isProjectPackage c (PkgPath pkg')" using b by simp
  next
    fix s :: Collector assume "isProjectPackage s (PkgPath pkg')"
    then show "Interfaces (visitTypes pkg' s) (PkgPath pkg' @ ''.'' @ name') \<noteq> None"
      using b by (intro visitTypes_Interface [where tn = tn' and t = t']) simp_all
  next
    fix y :: GoPackage and s :: Collector
    assume "Interfaces s (PkgPath pkg' @ ''.'' @ name') \<noteq> None"
    then show "Interfaces (visitTypes y s) (PkgPath pkg' @ ''.'' @ name') \<noteq> None"
      by (rule visitTypes_Interfaces_keep)
  qed
qed

theorem CollectImplements_no_empty_interface_witness:
  "\<lparr>Struct = ''app.Server'', Interface = ''app.Handler''\<rparr>
     \<in> set (Implements (CollectImplementsFromPackages ex_impl (NewCollector ''app'') [ex_pkg])) \<and>
   (\<exists>pkg name tn t. pkg \<in> set [ex_pkg] \<and> isProjectPackage (NewCollector ''app'') (PkgPath pkg) \<and>
         (name, TypeName tn) \<in> set (Scope pkg) \<and> tn_Underlying tn = UInterface t \<and>
         ''app.Handler'' = PkgPath pkg @ ''.'' @ name \<and> NumMethods t > 0) \<and>
   NumMethods (InterfaceType []) = 0 \<and>
   Interfaces (CollectTypes (NewCollector ''app'') [ex_pkg]) ''app.Empty'' \<noteq> None"
proof -
  note t = CollectImplements_no_empty_interface
    [of "NewCollector ''app''" "\<lparr>Struct = ''app.Server'', Interface = ''app.Handler''\<rparr>"
       ex_impl "[ex_pkg]" ex_pkg "''Empty''" ex_Empty_tn "InterfaceType []"]
  have m: "\<lparr>Struct = ''app.Server'', Interface = ''app.Handler''\<rparr>
     \<in> set (Implements (CollectImplementsFromPackages ex_impl (NewCollector ''app'') [ex_pkg]))"
    by (simp add: impl_eval ex_pkg_defs)
  have p: "isProjectPackage (NewCollector ''app'') (PkgPath ex_pkg)"
    by (simp add: isProjectPackage_def HasPrefix_def ex_pkg_def)
  have s: "(''Empty'', TypeName ex_Empty_tn) \<in> set (Scope ex_pkg)"
    "tn_Underlying ex_Empty_tn = UInterface (InterfaceType [])"
    by (simp_all add: ex_pkg_defs)
  from t m p s have "(\<exists>pkg name tn t. pkg \<in> set [ex_pkg] \<and>
         isProjectPackage (NewCollector ''app'') (PkgPath pkg) \<and>
         (name, TypeName tn) \<in> set (Scope pkg) \<and> tn_Underlying tn = UInterface t \<and>
         ''app.Handler'' = PkgPath pkg @ ''.'' @ name \<and> NumMethods t > 0) \<and>
     Interfaces (CollectTypes (NewCollector ''app'') [ex_pkg]) (PkgPath ex_pkg @ ''.'' @ ''Empty'')
       \<noteq> None"
    by simp
  then show ?thesis using m by (simp add: ex_pkg_def)
qed

section \<open>The keys of the two passes\<close>

text \<open>
  Where the receiver of a method is the named type itself or the pointer to it, and for
  functions found in the scope, both passes compute the same key: the key of the SSA
  function with the same package, name and receiver type is the full name of the node
  that entity extraction stores, that key is in the function map when the call-graph pass
  meets the function, and the node stored there is still stored there after the pass.
\<close>

theorem funcs_key_agreement:
  assumes "pkg \<in> set pkgs" and "isProjectPackage c (PkgPath pkg)"
    and "fn_Pkg f = Some (PkgPath pkg)"
  shows
    "((name, Func fo) \<in> set (Scope pkg) \<and> fn_Name f = name \<and> fn_Recv f = fo_Recv fo \<longrightarrow>
        buildSSAFuncName f = FullName (declFuncNode c' (PkgPath pkg) name fo) \<and>
        (\<exists>n. Funcs (CollectTypes c pkgs) (buildSSAFuncName f) = Some n \<and>
             Funcs (CollectCallGraph (CollectTypes c pkgs) cg) (buildSSAFuncName f) = Some n)) \<and>
     ((tname, TypeName tn) \<in> set (Scope pkg) \<and> tn_Type tn = Named q tname \<and>
      m \<in> set (tn_Methods tn) \<and> fn_Name f = fo_Name m \<and>
      (fn_Recv f = Some (Named q tname) \<or> fn_Recv f = Some (Pointer (Named q tname))) \<longrightarrow>
        buildSSAFuncName f = FullName (methodFuncNode c' (PkgPath pkg) tname m) \<and>
        (\<exists>n. Funcs (CollectTypes c pkgs) (buildSSAFuncName f) = Some n \<and>
             Funcs (CollectCallGraph (CollectTypes c pkgs) cg) (buildSSAFuncName f) = Some n))"
proof (intro conjI impI)
  assume a: "(name, Func fo) \<in> set (Scope pkg) \<and> fn_Name f = name \<and> fn_Recv f = fo_Recv fo"
  show k: "buildSSAFuncName f = FullName (declFuncNode c' (PkgPath pkg) name fo)"
    using a assms(3)
    by (simp add: buildSSAFuncName_def FullName_declFuncNode Let_def
          split: option.splits gotype.splits)
  have "Funcs (CollectTypes c pkgs) (FullName (declFuncNode c' (PkgPath pkg) name fo)) \<noteq> None"
  proof (rule CollectTypes_reach [where sel = Funcs, OF assms(1,2)])
    fix s :: Collector assume "isProjectPackage s (PkgPath pkg)"
    then show "Funcs (visitTypes pkg s) (FullName (declFuncNode c' (PkgPath pkg) name fo)) \<noteq> None"
      using a by (intro visitTypes_Func) simp_all
  next
    fix y :: GoPackage and s :: Collector
    assume "Funcs s (FullName (declFuncNode c' (PkgPath pkg) name fo)) \<noteq> None"
    then show "Funcs (visitTypes y s) (FullName (declFuncNode c' (PkgPath pkg) name fo)) \<noteq> None"
      by (rule visitTypes_Funcs_keep)
  qed
  then obtain n where "Funcs (CollectTypes c pkgs) (buildSSAFuncName f) = Some n"
    unfolding k by blast
  then show "\<exists>n. Funcs (CollectTypes c pkgs) (buildSSAFuncName f) = Some n \<and>
             Funcs (CollectCallGraph (CollectTypes c pkgs) cg) (buildSSAFuncName f) = Some n"
    using Funcs_CollectCallGraph_keep by blast
next
  assume a: "(tname, TypeName tn) \<in> set (Scope pkg) \<and> tn_Type tn = Named q tname \<and>
      m \<in> set (tn_Methods tn) \<and> fn_Name f = fo_Name m \<and>
      (fn_Recv f = Some (Named q tname) \<or> fn_Recv f = Some (Pointer (Named q tname)))"
  show k: "buildSSAFuncName f = FullName (methodFuncNode c' (PkgPath pkg) tname m)"
    using a assms(3)
    by (auto simp: buildSSAFuncName_def FullName_methodFuncNode Let_def)
  have "Funcs (CollectTypes c pkgs) (PkgPath pkg @ ''.'' @ tname @ ''.'' @ fo_Name m) \<noteq> None"
  proof (rule CollectTypes_reach [where sel = Funcs, OF assms(1,2)])
    fix s :: Collector assume "isProjectPackage s (PkgPath pkg)"
    then show "Funcs (visitTypes pkg s) (PkgPath pkg @ ''.'' @ tname @ ''.'' @ fo_Name m) \<noteq> None"
      using a by (intro visitTypes_method [where tn = tn and q = q and x = tname]) simp_all
  next
    fix y :: GoPackage and s :: Collector
    assume "Funcs s (PkgPath pkg @ ''.'' @ tname @ ''.'' @ fo_Name m) \<noteq> None"
    then show "Funcs (visitTypes y s) (PkgPath pkg @ ''.'' @ tname @ ''.'' @ fo_Name m) \<noteq> None"
      by (rule visitTypes_Funcs_keep)
  qed
  then obtain n where "Funcs (CollectTypes c pkgs) (buildSSAFuncName f) = Some n"
    unfolding k FullName_methodFuncNode by blast
  then show "\<exists>n. Funcs (CollectTypes c pkgs) (buildSSAFuncName f) = Some n \<and>
             Funcs (CollectCallGraph (CollectTypes c pkgs) cg) (buildSSAFuncName f) = Some n"
    using Funcs_CollectCallGraph_keep by blast
qed

theorem funcs_key_agreement_witness:
  "buildSSAFuncName ex_main = ''app.main'' \<and>
   FullName (declFuncNode (NewCollector ''app'') ''app'' ''main'' ex_main_obj) = ''app.main'' \<and>
   buildSSAFuncName ex_Server_Handle = ''app.Server.Handle'' \<and>
   FullName (methodFuncNode (NewCollector ''app'') ''app'' ''Server'' ex_Handle_obj) =
     ''app.Server.Handle'' \<and>
   (\<exists>n. Funcs (CollectTypes (NewCollector ''app'') [ex_pkg]) ''app.main'' = Some n \<and>
        Funcs (CollectCallGraph (CollectTypes (NewCollector ''app'') [ex_pkg])
                 [ex_invoke ex_main ex_Server_Handle 7 2]) ''app.main'' = Some n) \<and>
   (\<exists>n. Funcs (CollectTypes (NewCollector ''app'') [ex_pkg]) ''app.Server.Handle'' = Some n \<and>
        Funcs (CollectCallGraph (CollectTypes (NewCollector ''app'') [ex_pkg])
                 [ex_invoke ex_main ex_Server_Handle 7 2]) ''app.Server.Handle'' = Some n)"
proof -
  have p: "ex_pkg \<in> set [ex_pkg]" "isProjectPackage (NewCollector ''app'') (PkgPath ex_pkg)"
    by (simp_all add: isProjectPackage_def HasPrefix_def ex_pkg_def)
  have f1: "fn_Pkg ex_main = Some (PkgPath ex_pkg)" by (simp add: ex_main_def ex_pkg_def)
  have f2: "fn_Pkg ex_Server_Handle = Some (PkgPath ex_pkg)"
    by (simp add: ex_Server_Handle_def ex_pkg_def)
  have k1: "buildSSAFuncName ex_main = ''app.main''"
    by (simp add: buildSSAFuncName_def ex_main_def)
  have k2: "buildSSAFuncName ex_Server_Handle = ''app.Server.Handle''"
    by (simp add: buildSSAFuncName_def ex_Server_Handle_def)
  have h1: "(''main'', Func ex_main_obj) \<in> set (Scope ex_pkg) \<and> fn_Name ex_main = ''main'' \<and>
            fn_Recv ex_main = fo_Recv ex_main_obj"
    by (simp add: ex_pkg_def ex_main_def ex_main_obj_def)
  have h2: "(''Server'', TypeName ex_Server_tn) \<in> set (Scope ex_pkg) \<and>
            tn_Type ex_Server_tn = Named ''app'' ''Server'' \<and>
            ex_Handle_obj \<in> set (tn_Methods ex_Server_tn) \<and>
            fn_Name ex_Server_Handle = fo_Name ex_Handle_obj \<and>
            (fn_Recv ex_Server_Handle = Some (Named ''app'' ''Server'') \<or>
             fn_Recv ex_Server_Handle = Some (Pointer (Named ''app'' ''Server'')))"
    by (simp add: ex_pkg_def ex_Server_tn_def ex_Server_Handle_def ex_Handle_obj_def)
  from funcs_key_agreement [OF p f1, THEN conjunct1, rule_format, OF h1,
      where c' = "NewCollector ''app''" and cg = "[ex_invoke ex_main ex_Server_Handle 7 2]"]
  have r1: "''app.main'' = FullName (declFuncNode (NewCollector ''app'') (PkgPath ex_pkg) ''main'' ex_main_obj) \<and>
    (\<exists>n. Funcs (CollectTypes (NewCollector ''app'') [ex_pkg]) ''app.main'' = Some n \<and>
         Funcs (CollectCallGraph (CollectTypes (NewCollector ''app'') [ex_pkg])
                 [ex_invoke ex_main ex_Server_Handle 7 2]) ''app.main'' = Some n)"
    unfolding k1 .
  from funcs_key_agreement [OF p f2, THEN conjunct2, rule_format, OF h2,
      where c' = "NewCollector ''app''" and cg = "[ex_invoke ex_main ex_Server_Handle 7 2]"]
  have r2: "''app.Server.Handle'' =
      FullName (methodFuncNode (NewCollector ''app'') (PkgPath ex_pkg) ''Server'' ex_Handle_obj) \<and>
    (\<exists>n. Funcs (CollectTypes (NewCollector ''app'') [ex_pkg]) ''app.Server.Handle'' = Some n \<and>
         Funcs (CollectCallGraph (CollectTypes (NewCollector ''app'') [ex_pkg])
                 [ex_invoke ex_main ex_Server_Handle 7 2]) ''app.Server.Handle'' = Some n)"
    unfolding k2 .
  have e: "PkgPath ex_pkg = ''app''" by (simp add: ex_pkg_def)
  have a1: "FullName (declFuncNode (NewCollector ''app'') ''app'' ''main'' ex_main_obj) = ''app.main''"
    using r1 [unfolded e, THEN conjunct1] by (rule sym)
  have a2: "FullName (methodFuncNode (NewCollector ''app'') ''app'' ''Server'' ex_Handle_obj) =
      ''app.Server.Handle''"
    using r2 [unfolded e, THEN conjunct1] by (rule sym)
  note b1 = r1 [THEN conjunct2] and b2 = r2 [THEN conjunct2]
  from k1 a1 k2 a2 b1 b2 show ?thesis by blast
qed

text \<open>
  C2. The claim: every function or method that both passes discover gets the same key
  from both, so that the function map ends with one entry for it. For a method declared
  on an alias receiver the keys differ: the method-set scan stores it under the name of
  the named type, \<open>app.S.M\<close>, while \<open>buildSSAFuncName\<close>, whose type assertion on the
  receiver fails for the alias type, returns \<open>app.M\<close>. The call-graph pass finds no node
  under that key and registers a second, minimal one: after both passes the function map
  holds two nodes for the one method.
\<close>

theorem alias_receiver_two_keys:
  "FullName (methodFuncNode (NewCollector ''app'') ''app'' ''S'' ex_alias_M_obj) = ''app.S.M'' \<and>
   buildSSAFuncName ex_alias_M = ''app.M'' \<and>
   Funcs (CollectCallGraph (CollectTypes (NewCollector ''app'') [ex_alias_pkg])
            [ex_static ex_main ex_alias_M 5 2]) ''app.S.M'' =
     Some \<lparr>Name = ''M'', FullName = ''app.S.M'', Package = ''app'', File = ''s.go'', Line = 7,
           Exported = True, Receiver = ''S'', IsMethod = True\<rparr> \<and>
   Funcs (CollectCallGraph (CollectTypes (NewCollector ''app'') [ex_alias_pkg])
            [ex_static ex_main ex_alias_M 5 2]) ''app.M'' =
     Some \<lparr>Name = ''M'', FullName = ''app.M'', Package = ''app'', File = [], Line = 0,
           Exported = True, Receiver = [], IsMethod = False\<rparr>"
  by (simp add: CollectTypes_def visitTypes_def scanObject_def scanMethods_def
        declFuncNode_def methodFuncNode_def cg_eval ex_defs ex_pkg_defs
        ex_alias_M_obj_def ex_S_tn_def ex_A_tn_def ex_alias_pkg_def ex_alias_M_def)

text \<open>
  C9. When the password flag is empty, the run consists of the error line on standard
  error and the usage text; the exit status is 1; nothing is loaded, nothing is
  collected, no connection is opened and nothing is written to the store.
\<close>

theorem main_missing_password:
  assumes "neo4jPass fl = []"
  shows "main fl w = ([EvStderr ''Error: --neo4j-pass is required'', EvUsage], 1) \<and>
         snd (main fl w) \<noteq> 0 \<and>
         EvLoad \<notin> set (fst (main fl w)) \<and>
         EvCollectTypes \<notin> set (fst (main fl w)) \<and>
         EvCollectCallGraph \<notin> set (fst (main fl w)) \<and>
         EvCollectImplements \<notin> set (fst (main fl w)) \<and>
         EvConnect \<notin> set (fst (main fl w)) \<and>
         (\<forall>x. EvSink x \<notin> set (fst (main fl w)))"
  using assms by (simp add: main_def)

theorem main_missing_password_witness:
  "neo4jPass ex_flags = [] \<and>
   main ex_flags ex_world = ([EvStderr ''Error: --neo4j-pass is required'', EvUsage], 1) \<and>
   main (ex_flags\<lparr>neo4jPass := ''secret''\<rparr>) ex_world =
     ([EvAbs, EvDetectModulePath, EvLoad, EvCollectTypes, EvCollectCallGraph,
       EvCollectImplements, EvConnect, EvSink CreateIndexes, EvSink LoadPackages,
       EvSink LoadStructs, EvSink LoadInterfaces, EvSink LoadFuncs, EvSink LoadCalls,
       EvSink LoadImplements, EvClose], 0)"
proof -
  have h: "neo4jPass ex_flags = []" by (simp add: ex_flags_def)
  have s: "main (ex_flags\<lparr>neo4jPass := ''secret''\<rparr>) ex_world =
     ([EvAbs, EvDetectModulePath, EvLoad, EvCollectTypes, EvCollectCallGraph,
       EvCollectImplements, EvConnect, EvSink CreateIndexes, EvSink LoadPackages,
       EvSink LoadStructs, EvSink LoadInterfaces, EvSink LoadFuncs, EvSink LoadCalls,
       EvSink LoadImplements, EvClose], 0)"
    by (simp add: main_def ex_flags_def ex_world_def Let_def)
  from main_missing_password [OF h, of ex_world] h s show ?thesis by simp
qed

end
